theory Spec2Isabelle
  imports Main
begin

section \<open>Strings as the extractor uses them\<close>

text \<open>
  A string is a list of characters with the codes 0 to 255, each standing for the
  UTF-16 code unit of the same value: the model covers the JavaScript strings all of
  whose code units are below 256. Every character class the code tests is given for
  these code units as JavaScript defines it: the digits of \<^verbatim>\<open>\d\<close> and the letters of
  \<^verbatim>\<open>a-zA-Z\<close> are the ASCII ones, and the white space that \<^verbatim>\<open>trim()\<close> removes
  (\<^verbatim>\<open>WhiteSpace\<close> and \<^verbatim>\<open>LineTerminator\<close>) is TAB, LF, VT, FF, CR, the space and the
  no-break space U+00A0; all its other members have codes above 255.
\<close>

type_synonym bytes = string

definition is_digit :: "char \<Rightarrow> bool" where
  "is_digit c = (48 \<le> (of_char c :: nat) \<and> (of_char c :: nat) \<le> 57)"

definition is_alpha :: "char \<Rightarrow> bool" where
  "is_alpha c = ((65 \<le> (of_char c :: nat) \<and> (of_char c :: nat) \<le> 90) \<or>
                 (97 \<le> (of_char c :: nat) \<and> (of_char c :: nat) \<le> 122))"

definition is_space :: "char \<Rightarrow> bool" where
  "is_space c = ((of_char c :: nat) \<in> {9, 10, 11, 12, 13, 32, 160})"

text \<open>\<^verbatim>\<open>s.trim()\<close>\<close>

definition trim :: "string \<Rightarrow> string" where
  "trim s = rev (dropWhile is_space (rev (dropWhile is_space s)))"

text \<open>\<^verbatim>\<open>s.split(sep)\<close> for a one-character separator: the empty string gives one empty piece.\<close>

fun split_on :: "char \<Rightarrow> string \<Rightarrow> string list" where
  "split_on sep [] = [[]]"
| "split_on sep (c # cs) =
     (if c = sep then [] # split_on sep cs
      else (case split_on sep cs of
              [] \<Rightarrow> [[c]]
            | p # ps \<Rightarrow> (c # p) # ps))"

text \<open>\<^verbatim>\<open>s.startsWith(p)\<close>\<close>

definition startsWith :: "string \<Rightarrow> string \<Rightarrow> bool" where
  "startsWith s p = (take (length p) s = p)"

text \<open>A JavaScript string-valued field that may be \<^verbatim>\<open>null\<close> or \<^verbatim>\<open>undefined\<close>;
  \<^verbatim>\<open>if (x)\<close> holds for a non-empty string only.\<close>

definition truthy :: "string option \<Rightarrow> bool" where
  "truthy x = (case x of None \<Rightarrow> False | Some s \<Rightarrow> s \<noteq> [])"

text \<open>Decimal rendering of a non-negative integer, as template literals do.\<close>

definition digit_char :: "nat \<Rightarrow> char" where
  "digit_char d = ''0123456789'' ! d"

fun show_nat :: "nat \<Rightarrow> string" where
  "show_nat n = (if n < 10 then [digit_char n] else show_nat (n div 10) @ [digit_char (n mod 10)])"

declare show_nat.simps [simp del]

section \<open>Metadata embedding: the exiftool argument list\<close>

record ImageMetadata =
  titleField :: "string option"
  subjectField :: "string option"
  tags :: "string option"
  comments :: "string option"
  authors :: "string option"
  dateTaken :: "string option"
  copyright :: "string option"

subsection \<open>The date pattern\<close>

text \<open>
  \<^verbatim>\<open>/^(\d{4})-(\d{2})-(\d{2})(?:[T ](\d{2}):(\d{2})(?::(\d{2}))?(?:\.\d+)?(?:[+-]\d{2}:\d{2}|Z)?)?/\<close>

  The pattern is anchored at the start only. Each piece consumes a prefix of what is
  left of the string. Everything after the minutes is optional and nothing follows the
  outer optional group, so the matcher never has to backtrack: the time group takes part
  exactly when \<^verbatim>\<open>[T ]\d{2}:\d{2}\<close> follows the day, and the seconds group exactly when
  \<^verbatim>\<open>:\d{2}\<close> follows the minutes. The fraction and the zone capture nothing.
\<close>

text \<open>\<^verbatim>\<open>(\d{n})\<close> at the current position: the captured digits and the rest.\<close>

definition take_digits :: "nat \<Rightarrow> string \<Rightarrow> (string \<times> string) option" where
  "take_digits n s =
     (if n \<le> length s \<and> (\<forall>c \<in> set (take n s). is_digit c) then Some (take n s, drop n s) else None)"

text \<open>One literal character out of a class at the current position: the rest.\<close>

definition take_char :: "(char \<Rightarrow> bool) \<Rightarrow> string \<Rightarrow> string option" where
  "take_char P s = (case s of [] \<Rightarrow> None | c # r \<Rightarrow> if P c then Some r else None)"

text \<open>\<^verbatim>\<open>(?::(\d{2}))?\<close>: the seconds, when present.\<close>

definition match_seconds :: "string \<Rightarrow> string option" where
  "match_seconds s =
     (case take_char (\<lambda>c. c = CHR '':'') s of
        None \<Rightarrow> None
      | Some r \<Rightarrow> (case take_digits 2 r of None \<Rightarrow> None | Some (sec, _) \<Rightarrow> Some sec))"

text \<open>\<^verbatim>\<open>[T ](\d{2}):(\d{2})(?::(\d{2}))?...\<close>: hours, minutes and optional seconds.\<close>

definition match_time :: "string \<Rightarrow> (string \<times> string \<times> string option) option" where
  "match_time s =
     (case take_char (\<lambda>c. c = CHR ''T'' \<or> c = CHR '' '') s of
        None \<Rightarrow> None
      | Some r1 \<Rightarrow>
     (case take_digits 2 r1 of
        None \<Rightarrow> None
      | Some (hours, r2) \<Rightarrow>
     (case take_char (\<lambda>c. c = CHR '':'') r2 of
        None \<Rightarrow> None
      | Some r3 \<Rightarrow>
     (case take_digits 2 r3 of
        None \<Rightarrow> None
      | Some (minutes, r4) \<Rightarrow> Some (hours, minutes, match_seconds r4)))))"

text \<open>The captures of the whole pattern: year, month, day, and the three optional
  time groups (\<open>None\<close> is JavaScript's \<^verbatim>\<open>undefined\<close> for a group that took no part).\<close>

definition isoMatch ::
  "string \<Rightarrow> (string \<times> string \<times> string \<times> string option \<times> string option \<times> string option) option" where
  "isoMatch s =
     (case take_digits 4 s of
        None \<Rightarrow> None
      | Some (year, r1) \<Rightarrow>
     (case take_char (\<lambda>c. c = CHR ''-'') r1 of
        None \<Rightarrow> None
      | Some r2 \<Rightarrow>
     (case take_digits 2 r2 of
        None \<Rightarrow> None
      | Some (month, r3) \<Rightarrow>
     (case take_char (\<lambda>c. c = CHR ''-'') r3 of
        None \<Rightarrow> None
      | Some r4 \<Rightarrow>
     (case take_digits 2 r4 of
        None \<Rightarrow> None
      | Some (day, r5) \<Rightarrow>
     (case match_time r5 of
        None \<Rightarrow> Some (year, month, day, None, None, None)
      | Some (hours, minutes, seconds) \<Rightarrow>
          Some (year, month, day, Some hours, Some minutes, seconds)))))))"

text \<open>A destructuring default: \<^verbatim>\<open>hours = '00'\<close> applies to \<^verbatim>\<open>undefined\<close> only.\<close>

definition or_default :: "string option \<Rightarrow> string \<Rightarrow> string" where
  "or_default x d = (case x of None \<Rightarrow> d | Some v \<Rightarrow> v)"

text \<open>The \<^verbatim>\<open>if (metadata.dateTaken)\<close> block: the arguments pushed and the warnings logged.\<close>

definition date_args :: "string option \<Rightarrow> string list \<times> string list" where
  "date_args dt =
     (if truthy dt then
        (case isoMatch (the dt) of
           Some (year, month, day, hours, minutes, seconds) \<Rightarrow>
             (let exifDate = year @ '':'' @ month @ '':'' @ day @ '' '' @ or_default hours ''00''
                             @ '':'' @ or_default minutes ''00'' @ '':'' @ or_default seconds ''00''
              in ([''-EXIF:DateTimeOriginal='' @ exifDate,
                   ''-EXIF:CreateDate='' @ exifDate,
                   ''-XMP:DateCreated='' @ the dt], []))
         | None \<Rightarrow>
             ([], [''[SmartFrame Canvas] Date format not recognized, skipping date embedding: '' @ the dt]))
      else ([], []))"

subsection \<open>Tags\<close>

text \<open>\<^verbatim>\<open>metadata.tags.split(',').map(t => t.trim()).filter(t => t)\<close>\<close>

definition tagList :: "string \<Rightarrow> string list" where
  "tagList s = filter (\<lambda>t. t \<noteq> []) (map trim (split_on CHR '','' s))"

definition tag_args :: "string option \<Rightarrow> string list" where
  "tag_args tg =
     (if truthy tg then
        (if length (tagList (the tg)) > 0 then
           concat (map (\<lambda>tag. [''-IPTC:Keywords+='' @ tag, ''-XMP:Subject+='' @ tag]) (tagList (the tg)))
         else [])
      else [])"

subsection \<open>The whole argument list\<close>

definition field_args :: "string option \<Rightarrow> string list \<Rightarrow> string list" where
  "field_args v flags = (if truthy v then map (\<lambda>f. f @ the v) flags else [])"

definition exif_args :: "string \<Rightarrow> ImageMetadata \<Rightarrow> string list" where
  "exif_args jpgPath metadata =
     [''-overwrite_original'']
     @ field_args (titleField metadata) [''-IPTC:ObjectName='', ''-XMP:Title='', ''-IPTC:Headline='']
     @ field_args (subjectField metadata) [''-XMP:PersonInImage='', ''-IPTC:SubjectReference='']
     @ field_args (comments metadata)
         [''-IPTC:Caption-Abstract='', ''-XMP:Description='', ''-EXIF:ImageDescription='']
     @ field_args (authors metadata) [''-IPTC:By-line='', ''-XMP:Creator='', ''-EXIF:Artist='']
     @ field_args (copyright metadata) [''-IPTC:CopyrightNotice='', ''-XMP:Rights='', ''-EXIF:Copyright='']
     @ fst (date_args (dateTaken metadata))
     @ tag_args (tags metadata)
     @ [jpgPath]"

definition exif_warnings :: "ImageMetadata \<Rightarrow> string list" where
  "exif_warnings metadata = snd (date_args (dateTaken metadata))"

section \<open>The canvas extractor\<close>

subsection \<open>Failures\<close>

text \<open>
  The two error classes of the source, with the fields their constructors store, and one
  constructor for every exception raised by a library the extractor calls (the browser
  driver, the file system, the image library, the process spawner).
\<close>

datatype failure =
    CanvasTimeoutError (err_imageId: string) (err_elapsedMs: nat) (err_maxWaitMs: nat)
      (err_lastKnownError: "string option")
  | CanvasExtensionError (err_imageId: string) (err_extensionError: string) (err_elapsedMs: nat)
  | ExternalError string

datatype viewport_mode = Full | Thumbnail

definition mode_name :: "viewport_mode \<Rightarrow> string" where
  "mode_name m = (case m of Full \<Rightarrow> ''full'' | Thumbnail \<Rightarrow> ''thumbnail'')"

subsection \<open>Configuration\<close>

text \<open>
  Modelled from the spec: the declaration of \<^verbatim>\<open>ScraperConfig\<close> (\<^verbatim>\<open>../../types\<close>) and
  \<^verbatim>\<open>loadScraperConfig\<close> are not among the sources. The record holds the fields of
  \<^verbatim>\<open>config.smartframe\<close> that the extractor reads, each absent (\<open>None\<close>) when any link of
  the optional chain \<^verbatim>\<open>this.config?.smartframe?.x\<close> is undefined. Values are
  non-negative whole numbers.
\<close>

record ScraperConfig =
  initialRenderWaitMs :: "nat option"
  postResizeWaitMs :: "nat option"
  maxRenderWaitMs :: "nat option"
  jpgQualityFull :: "nat option"
  jpgQualityThumbnail :: "nat option"
  minValidFileSize :: "nat option"
  minValidDimensions :: "nat option"

text \<open>\<^verbatim>\<open>x || d\<close> on numbers: \<^verbatim>\<open>undefined\<close> and \<^verbatim>\<open>0\<close> both give the default.\<close>

definition or_else :: "nat option \<Rightarrow> nat \<Rightarrow> nat" where
  "or_else x d = (case x of None \<Rightarrow> d | Some v \<Rightarrow> if v = 0 then d else v)"

subsection \<open>The page, the clock and the libraries\<close>

text \<open>
  What a driver call sees of the element \<^verbatim>\<open>#extension-response-data\<close>: it does not
  exist, it exists with its two attributes (\<open>None\<close> for an attribute that is not set), or
  the call itself rejects (page closed or crashed).
\<close>

datatype signal = NoElement | Element (data_url: "string option") (data_error: "string option") | PageGone

type_synonym files = "string \<rightharpoonup> bytes"

text \<open>How the metadata tool ended: \<^verbatim>\<open>spawn\<close> threw synchronously, the child emitted
  \<^verbatim>\<open>error\<close>, or it emitted \<^verbatim>\<open>close\<close> with an exit code (\<open>None\<close> for \<^verbatim>\<open>null\<close>,
  a child ended by a signal) having left the given contents in the file.\<close>

datatype exif_outcome = SpawnThrew | SpawnError | Closed "nat option" bytes

text \<open>
  Everything outside the program is a parameter:
  \<^item> \<open>dom t\<close>: the capture-signal element as a driver call issued at clock \<open>t\<close> sees it;
  \<^item> \<open>lat t\<close>: the extra time an awaited operation started at \<open>t\<close> takes, so that the
    clock never runs backwards and a timer never fires early;
  \<^item> \<open>front_ok\<close>: \<^verbatim>\<open>page.bringToFront()\<close> resolves;
  \<^item> \<open>write_ok p\<close>: \<^verbatim>\<open>fs.writeFileSync(p, ...)\<close> succeeds;
  \<^item> \<open>b64decode\<close>: \<^verbatim>\<open>Buffer.from(s, 'base64')\<close>;
  \<^item> \<open>transcode buf q\<close>: what \<^verbatim>\<open>sharp(buf).jpeg({quality: q}).toFile(...)\<close> writes,
    \<open>None\<close> when it rejects;
  \<^item> \<open>image_dims b\<close>: \<^verbatim>\<open>sharp(path).metadata()\<close> on a file with contents \<open>b\<close>: its
    \<^verbatim>\<open>width\<close> and \<^verbatim>\<open>height\<close>, each possibly undefined, \<open>None\<close> when it rejects;
  \<^item> \<open>exiftool args b\<close>: the run of the metadata tool on a file with contents \<open>b\<close>.
  The file system is changed by the extractor only.
\<close>

record env =
  dom :: "nat \<Rightarrow> signal"
  lat :: "nat \<Rightarrow> nat"
  front_ok :: bool
  write_ok :: "string \<Rightarrow> bool"
  b64decode :: "string \<Rightarrow> bytes"
  transcode :: "bytes \<Rightarrow> nat \<Rightarrow> bytes option"
  image_dims :: "bytes \<Rightarrow> (nat option \<times> nat option) option"
  exiftool :: "string list \<Rightarrow> bytes \<Rightarrow> exif_outcome"

text \<open>\<^verbatim>\<open>await this.wait(ms)\<close>: the clock when the timer has fired.\<close>

definition wait :: "env \<Rightarrow> nat \<Rightarrow> nat \<Rightarrow> nat" where
  "wait e ms t = t + ms + lat e t"

text \<open>\<^verbatim>\<open>page.$('#extension-response-data[data-url], #extension-response-data[data-error]')\<close>
  is not null: an attribute selector holds for an attribute that is set, also to the
  empty string.\<close>

definition hasResponse :: "signal \<Rightarrow> bool" where
  "hasResponse sg = (case sg of Element u er \<Rightarrow> u \<noteq> None \<or> er \<noteq> None | _ \<Rightarrow> False)"

text \<open>\<^verbatim>\<open>page.$eval(responseSelector, el => el.getAttribute(a))\<close>: rejects when no element
  matches the selector.\<close>

definition eval_attr :: "(signal \<Rightarrow> string option) \<Rightarrow> signal \<Rightarrow> failure + string option" where
  "eval_attr a sg =
     (case sg of
        Element u er \<Rightarrow> Inr (a (Element u er))
      | NoElement \<Rightarrow> Inl (ExternalError ''failed to find element matching selector'')
      | PageGone \<Rightarrow> Inl (ExternalError ''page closed''))"

definition attr_url :: "signal \<Rightarrow> string option" where
  "attr_url sg = (case sg of Element u er \<Rightarrow> u | _ \<Rightarrow> None)"

definition attr_error :: "signal \<Rightarrow> string option" where
  "attr_error sg = (case sg of Element u er \<Rightarrow> er | _ \<Rightarrow> None)"

subsection \<open>The polling loop\<close>

text \<open>The rest of one iteration after a check that found nothing: the backoff
  \<^verbatim>\<open>Math.min(100 * Math.pow(2, attempt), 2000)\<close>, and after every fifth attempt a mouse
  move whose failure is ignored.\<close>

definition backoff :: "nat \<Rightarrow> nat" where
  "backoff attempt = min (100 * 2 ^ attempt) 2000"

definition after_backoff :: "env \<Rightarrow> nat \<Rightarrow> nat \<Rightarrow> nat" where
  "after_backoff e attempt t =
     (let t' = wait e (backoff attempt) t
      in if (attempt + 1) mod 5 = 0 then t' + lat e t' else t')"

text \<open>The \<^verbatim>\<open>while (Date.now() - startTime < maxWaitMs && !canvasReady)\<close> loop, entered with
  \<^verbatim>\<open>canvasReady = false\<close> at clock \<open>t\<close>: \<^verbatim>\<open>canvasReady\<close> and the clock when it is left,
  or the exception of the driver.\<close>

function poll :: "env \<Rightarrow> nat \<Rightarrow> nat \<Rightarrow> nat \<Rightarrow> nat \<Rightarrow> failure + (bool \<times> nat)" where
  "poll e maxWaitMs startTime attempt t =
     (if t - startTime < maxWaitMs then
        (if dom e t = PageGone then Inl (ExternalError ''page closed'')
         else if hasResponse (dom e t) then Inr (True, t + lat e t)
         else poll e maxWaitMs startTime (attempt + 1) (after_backoff e attempt (t + lat e t)))
      else Inr (False, t))"
  by pat_completeness auto

termination poll
proof (relation "measure (\<lambda>(e, maxWaitMs, startTime, attempt, t). startTime + maxWaitMs - t)")
  show "wf (measure (\<lambda>(e, maxWaitMs, startTime, attempt, t). startTime + maxWaitMs - t))"
    by simp
next
  fix e :: "env" and maxWaitMs startTime attempt t :: nat
  assume running: "t - startTime < maxWaitMs"
  have "100 \<le> backoff attempt"
    by (simp add: backoff_def)
  then have "t + lat e t + 100 \<le> after_backoff e attempt (t + lat e t)"
    by (simp add: after_backoff_def wait_def Let_def)
  with running show "((e, maxWaitMs, startTime, attempt + 1, after_backoff e attempt (t + lat e t)),
                    (e, maxWaitMs, startTime, attempt, t))
          \<in> measure (\<lambda>(e, maxWaitMs, startTime, attempt, t). startTime + maxWaitMs - t)"
    by simp
qed

declare poll.simps [simp del]

subsection \<open>After the loop\<close>

text \<open>The \<^verbatim>\<open>if (!canvasReady)\<close> block, at clock \<open>t\<close>: the error attribute is read once
  more, a failed read counting as \<^verbatim>\<open>null\<close>, and the timeout error is built.\<close>

definition timeout_failure :: "env \<Rightarrow> string \<Rightarrow> nat \<Rightarrow> nat \<Rightarrow> nat \<Rightarrow> failure" where
  "timeout_failure e imageId maxWaitMs startTime t =
     (let errorState = (case eval_attr attr_error (dom e t) of Inl _ \<Rightarrow> None | Inr v \<Rightarrow> v);
          elapsedMs = (t + lat e t) - startTime
      in if truthy errorState then CanvasTimeoutError imageId elapsedMs maxWaitMs errorState
         else CanvasTimeoutError imageId elapsedMs maxWaitMs None)"

text \<open>Reading the signal at clock \<open>t\<close>: the data URL, then the error attribute, then the
  two checks. The result is the data URL and the clock.\<close>

definition data_prefix :: string where
  "data_prefix = ''data:image/png;base64,''"

definition read_signal :: "env \<Rightarrow> string \<Rightarrow> nat \<Rightarrow> nat \<Rightarrow> failure + (string \<times> nat)" where
  "read_signal e imageId startTime t =
     (case eval_attr attr_url (dom e t) of
        Inl x \<Rightarrow> Inl x
      | Inr imageDataUrl \<Rightarrow>
     (let t1 = t + lat e t in
      case eval_attr attr_error (dom e t1) of
        Inl x \<Rightarrow> Inl x
      | Inr errorFromExtension \<Rightarrow>
     (let t2 = t1 + lat e t1;
          elapsedMs = t2 - startTime
      in if truthy errorFromExtension then
           Inl (CanvasExtensionError imageId (the errorFromExtension) elapsedMs)
         else if \<not> truthy imageDataUrl \<or> \<not> startsWith (the imageDataUrl) data_prefix then
           Inl (CanvasExtensionError imageId ''No valid canvas data URL received'' elapsedMs)
         else Inr (the imageDataUrl, t2))))"

subsection \<open>File names\<close>

text \<open>\<^verbatim>\<open>imageId.replace(/[^a-zA-Z0-9.\-_]/g, '-')\<close>\<close>

definition id_char_ok :: "char \<Rightarrow> bool" where
  "id_char_ok c = (is_alpha c \<or> is_digit c \<or> c = CHR ''.'' \<or> c = CHR ''-'' \<or> c = CHR ''_'')"

definition sanitizedId :: "string \<Rightarrow> string" where
  "sanitizedId imageId = map (\<lambda>c. if id_char_ok c then c else CHR ''-'') imageId"

text \<open>\<^verbatim>\<open>path.join(outputDir, filename)\<close> for a directory name that needs no
  normalisation and a file name without separators.\<close>

definition path_join :: "string \<Rightarrow> string \<Rightarrow> string" where
  "path_join d f = d @ ''/'' @ f"

definition pngFilename :: "string \<Rightarrow> viewport_mode \<Rightarrow> string" where
  "pngFilename imageId m = sanitizedId imageId @ ''_canvas_'' @ mode_name m @ ''.png''"

definition jpgFilename :: "string \<Rightarrow> viewport_mode \<Rightarrow> string" where
  "jpgFilename imageId m = sanitizedId imageId @ ''_canvas_'' @ mode_name m @ ''.jpg''"

definition pngPath :: "string \<Rightarrow> string \<Rightarrow> viewport_mode \<Rightarrow> string" where
  "pngPath outputDir imageId m = path_join outputDir (pngFilename imageId m)"

definition jpgPath :: "string \<Rightarrow> string \<Rightarrow> viewport_mode \<Rightarrow> string" where
  "jpgPath outputDir imageId m = path_join outputDir (jpgFilename imageId m)"

definition jpgQuality :: "ScraperConfig \<Rightarrow> viewport_mode \<Rightarrow> nat" where
  "jpgQuality cfg m =
     (case m of Full \<Rightarrow> or_else (jpgQualityFull cfg) 95
              | Thumbnail \<Rightarrow> or_else (jpgQualityThumbnail cfg) 80)"

subsection \<open>Metadata embedding\<close>

text \<open>
  \<^verbatim>\<open>embedExifMetadata\<close>: \<open>Inr ()\<close> is a resolved promise, \<open>Inl\<close> a rejected one. The
  executor never calls \<^verbatim>\<open>reject\<close>; the promise is rejected only when the executor
  itself throws, which \<^verbatim>\<open>spawn\<close> can do. Both handlers resolve. The child is taken to
  end: a child that emits neither event leaves the promise pending.
\<close>

definition embedExifMetadata ::
  "env \<Rightarrow> string \<Rightarrow> ImageMetadata \<Rightarrow> files \<Rightarrow> (failure + unit) \<times> files" where
  "embedExifMetadata e path metadata fs =
     (case fs path of
        None \<Rightarrow>
          (case exiftool e (exif_args path metadata) [] of
             SpawnThrew \<Rightarrow> (Inl (ExternalError ''spawn''), fs)
           | _ \<Rightarrow> (Inr (), fs))
      | Some b \<Rightarrow>
          (case exiftool e (exif_args path metadata) b of
             SpawnThrew \<Rightarrow> (Inl (ExternalError ''spawn''), fs)
           | SpawnError \<Rightarrow> (Inr (), fs)
           | Closed code b' \<Rightarrow>
               (if code = Some 0 then (Inr (), fs(path \<mapsto> b'))
                else (Inr (), fs(path \<mapsto> b')))))"

subsection \<open>Validation\<close>

text \<open>TASK 4 of the source and the metadata step, entered at clock \<open>t\<close> with the JPG
  written.\<close>

definition size_message :: "nat \<Rightarrow> nat \<Rightarrow> string" where
  "size_message fileSizeBytes minFileSize =
     ''File validation failed: size '' @ show_nat fileSizeBytes @ '' bytes is below minimum ''
       @ show_nat minFileSize @ '' bytes''"

definition dimensions_message :: "nat \<Rightarrow> nat \<Rightarrow> nat \<Rightarrow> string" where
  "dimensions_message width height minDimensions =
     ''File validation failed: dimensions '' @ show_nat width @ ''x'' @ show_nat height
       @ '' are below minimum '' @ show_nat minDimensions @ ''px''"

definition validate_and_embed ::
  "env \<Rightarrow> ScraperConfig \<Rightarrow> string \<Rightarrow> string \<Rightarrow> ImageMetadata option \<Rightarrow> nat \<Rightarrow> nat \<Rightarrow> files
     \<Rightarrow> (failure + string) \<times> files" where
  "validate_and_embed e cfg imageId path metadata startTime t fs =
     (let minFileSize = or_else (minValidFileSize cfg) 51200;
          minDimensions = or_else (minValidDimensions cfg) 500
      in case fs path of
           None \<Rightarrow> (Inl (ExternalError ''ENOENT''), fs)
         | Some b \<Rightarrow>
      (let fileSizeBytes = length b in
       if fileSizeBytes < minFileSize then
         (Inl (CanvasExtensionError imageId (size_message fileSizeBytes minFileSize) (t - startTime)),
          fs(path := None))
       else
         (case image_dims e b of
            None \<Rightarrow> (Inl (ExternalError ''metadata''), fs)
          | Some (w, h) \<Rightarrow>
         (let width = or_else w 0;
              height = or_else h 0;
              t1 = t + lat e t
          in if width < minDimensions \<or> height < minDimensions then
               (Inl (CanvasExtensionError imageId (dimensions_message width height minDimensions)
                       (t1 - startTime)),
                fs(path := None))
             else
               (case metadata of
                  None \<Rightarrow> (Inr path, fs)
                | Some md \<Rightarrow>
                    (case embedExifMetadata e path md fs of
                       (Inl x, fs') \<Rightarrow> (Inl x, fs')
                     | (Inr _, fs') \<Rightarrow> (Inr path, fs')))))))"

subsection \<open>Saving and transcoding\<close>

text \<open>From the data URL to the JPG on disk: the payload is what lies between the first
  and the second comma.\<close>

definition save_and_convert ::
  "env \<Rightarrow> ScraperConfig \<Rightarrow> string \<Rightarrow> string \<Rightarrow> viewport_mode \<Rightarrow> string \<Rightarrow> nat \<Rightarrow> files
     \<Rightarrow> (failure + nat) \<times> files" where
  "save_and_convert e cfg imageId outputDir m imageDataUrl t fs =
     (case split_on CHR '','' imageDataUrl of
        _ # base64Data # _ \<Rightarrow>
          (let imageBuffer = b64decode e base64Data;
               png = pngPath outputDir imageId m;
               jpg = jpgPath outputDir imageId m
           in if \<not> write_ok e png then (Inl (ExternalError ''writeFileSync''), fs)
              else
                (let fs1 = fs(png \<mapsto> imageBuffer) in
                 case transcode e imageBuffer (jpgQuality cfg m) of
                   None \<Rightarrow> (Inl (ExternalError ''sharp''), fs1)
                 | Some out \<Rightarrow>
                     (let fs2 = fs1(jpg \<mapsto> out);
                          fs3 = fs2(png := None)
                      in (Inr (t + lat e t), fs3))))
      | _ \<Rightarrow> (Inl (ExternalError ''Buffer.from''), fs))"

subsection \<open>The method\<close>

text \<open>The clock when polling starts (\<^verbatim>\<open>startTime\<close>): the tab has been brought to the
  front and the two stabilisation waits are over. The longest time polling may take.\<close>

definition startTime_of :: "env \<Rightarrow> ScraperConfig \<Rightarrow> nat \<Rightarrow> nat" where
  "startTime_of e cfg t0 =
     (let t1 = t0 + lat e t0;
          t2 = wait e (or_else (initialRenderWaitMs cfg) 500) t1
      in wait e (or_else (postResizeWaitMs cfg) 750) t2)"

definition maxWaitMs_of :: "ScraperConfig \<Rightarrow> nat" where
  "maxWaitMs_of cfg = or_else (maxRenderWaitMs cfg) 30000"

text \<open>The body of the \<^verbatim>\<open>try\<close> block, entered at clock \<open>t0\<close>: the final path or the
  exception thrown, and the files afterwards.\<close>

definition extract_body ::
  "env \<Rightarrow> ScraperConfig \<Rightarrow> string \<Rightarrow> string \<Rightarrow> viewport_mode \<Rightarrow> ImageMetadata option \<Rightarrow> nat \<Rightarrow> files
     \<Rightarrow> (failure + string) \<times> files" where
  "extract_body e cfg imageId outputDir m metadata t0 fs =
     (if \<not> front_ok e then (Inl (ExternalError ''bringToFront''), fs)
      else
        (let maxWaitMs = maxWaitMs_of cfg;
             startTime = startTime_of e cfg t0
         in case poll e maxWaitMs startTime 0 startTime of
              Inl x \<Rightarrow> (Inl x, fs)
            | Inr (canvasReady, t4) \<Rightarrow>
                if \<not> canvasReady then (Inl (timeout_failure e imageId maxWaitMs startTime t4), fs)
                else
                  (case read_signal e imageId startTime t4 of
                     Inl x \<Rightarrow> (Inl x, fs)
                   | Inr (imageDataUrl, t5) \<Rightarrow>
                       (case save_and_convert e cfg imageId outputDir m imageDataUrl t5 fs of
                          (Inl x, fs') \<Rightarrow> (Inl x, fs')
                        | (Inr t6, fs') \<Rightarrow>
                            validate_and_embed e cfg imageId (jpgPath outputDir imageId m)
                              metadata startTime t6 fs'))))"

text \<open>
  \<^verbatim>\<open>extractCanvasImage\<close>: the \<^verbatim>\<open>try\<close> block with its \<^verbatim>\<open>catch\<close>. \<open>Inr\<close> is the value
  the promise resolves to (\<open>None\<close> for \<^verbatim>\<open>null\<close>), \<open>Inl\<close> an exception that reaches the
  caller.
\<close>

definition extractCanvasImage ::
  "env \<Rightarrow> ScraperConfig \<Rightarrow> string \<Rightarrow> string \<Rightarrow> viewport_mode \<Rightarrow> ImageMetadata option \<Rightarrow> nat \<Rightarrow> files
     \<Rightarrow> (failure + string option) \<times> files" where
  "extractCanvasImage e cfg imageId outputDir m metadata t0 fs =
     (case extract_body e cfg imageId outputDir m metadata t0 fs of
        (Inr path, fs') \<Rightarrow> (Inr (Some path), fs')
      | (Inl error, fs') \<Rightarrow> (Inr None, fs'))"

section \<open>The page scheduler\<close>

subsection \<open>State\<close>

text \<open>A page handle is opaque: only its identity matters.\<close>

type_synonym page = nat

record PageState =
  page :: page
  busy :: bool
  lastActivated :: nat

text \<open>
  The fields of \<^verbatim>\<open>PageActivationScheduler\<close>. \<open>rotationTimerId\<close> and
  \<open>cleanupStarted\<close> record whether the timer and the promise exist.
  \<open>currentActiveIndex\<close> is \<open>None\<close> for \<^verbatim>\<open>NaN\<close>, which \<^verbatim>\<open>% this.pages.length\<close> gives
  on an empty pool. A task promise is known by a number.
\<close>

record Scheduler =
  pages :: "PageState list"
  activationIntervalMs :: nat
  rotationTimerId :: bool
  currentActiveIndex :: "nat option"
  activeTasks :: "nat set"
  shuttingDown :: bool
  cleanupStarted :: bool

text \<open>The calls made on page handles.\<close>

datatype call = BringToFront page | MouseMove page | ClosePage page

definition constructor :: "page list \<Rightarrow> nat \<Rightarrow> Scheduler" where
  "constructor pgs ms =
     \<lparr>pages = map (\<lambda>p. \<lparr>page = p, busy = False, lastActivated = 0\<rparr>) pgs,
      activationIntervalMs = ms,
      rotationTimerId = False,
      currentActiveIndex = Some 0,
      activeTasks = {},
      shuttingDown = False,
      cleanupStarted = False\<rparr>"

subsection \<open>Rotation\<close>

definition startRotation :: "Scheduler \<Rightarrow> Scheduler" where
  "startRotation s = (if rotationTimerId s then s else s\<lparr>rotationTimerId := True\<rparr>)"

definition stopRotation :: "Scheduler \<Rightarrow> Scheduler" where
  "stopRotation s = (if rotationTimerId s then s\<lparr>rotationTimerId := False\<rparr> else s)"

text \<open>
  \<^verbatim>\<open>rotateActivePage\<close> at clock \<open>now\<close>: the new state and the calls made on pages. The
  cursor is assigned first; on an empty pool (or a cursor that is already \<^verbatim>\<open>NaN\<close>) the
  slot read is \<^verbatim>\<open>undefined\<close>, stamping it throws, and the outer \<^verbatim>\<open>catch\<close> only logs.
  The mouse move is attempted whatever its outcome, which is ignored.
\<close>

definition rotateActivePage :: "nat \<Rightarrow> Scheduler \<Rightarrow> Scheduler \<times> call list" where
  "rotateActivePage now s =
     (if shuttingDown s then (s, [])
      else
        (let idx = (case currentActiveIndex s of
                      None \<Rightarrow> None
                    | Some i \<Rightarrow> if pages s = [] then None else Some ((i + 1) mod length (pages s)));
             s1 = s\<lparr>currentActiveIndex := idx\<rparr>
         in case idx of
              None \<Rightarrow> (s1, [])
            | Some j \<Rightarrow>
                (let s2 = s1\<lparr>pages := (pages s1)[j := (pages s1 ! j)\<lparr>lastActivated := now\<rparr>]\<rparr>
                 in if \<not> shuttingDown s2 then (s2, [MouseMove (page (pages s2 ! j))])
                    else (s2, []))))"

subsection \<open>Acquiring and releasing\<close>

text \<open>\<^verbatim>\<open>xs.findIndex(P)\<close>, with \<open>None\<close> for \<^verbatim>\<open>-1\<close>.\<close>

fun findIndex :: "('a \<Rightarrow> bool) \<Rightarrow> 'a list \<Rightarrow> nat option" where
  "findIndex P [] = None"
| "findIndex P (x # xs) =
     (if P x then Some 0 else (case findIndex P xs of None \<Rightarrow> None | Some i \<Rightarrow> Some (Suc i)))"

text \<open>
  One iteration of the loop of \<^verbatim>\<open>acquirePage\<close>, up to the point where the call is
  suspended or returns: it returns \<^verbatim>\<open>null\<close> during shutdown, it marks the first free
  slot busy and awaits \<^verbatim>\<open>bringToFront()\<close> on its page, or it sleeps before the next
  iteration.
\<close>

datatype scan = ReturnNull | AwaitFront nat page | Sleep

definition acquire_scan :: "Scheduler \<Rightarrow> scan \<times> Scheduler \<times> call list" where
  "acquire_scan s =
     (if shuttingDown s then (ReturnNull, s, [])
      else
        (case findIndex (\<lambda>p. \<not> busy p) (pages s) of
           None \<Rightarrow> (Sleep, s, [])
         | Some availableIndex \<Rightarrow>
             (let pageState = pages s ! availableIndex
              in (AwaitFront availableIndex (page pageState),
                  s\<lparr>pages := (pages s)[availableIndex := pageState\<lparr>busy := True\<rparr>]\<rparr>,
                  [BringToFront (page pageState)]))))"

text \<open>
  The rest of the iteration once \<^verbatim>\<open>bringToFront()\<close> has resolved, at clock \<open>now\<close>: the
  slot object is stamped (it is still in the pool unless cleanup has emptied the pool)
  and the task promise \<open>task\<close> is added. The capability returned holds the page, the
  index and the release callback, which has captured the index and the task promise.
\<close>

record AcquiredPage =
  acquired_page :: page
  index :: nat
  release_task :: nat

definition acquire_resume :: "nat \<Rightarrow> page \<Rightarrow> nat \<Rightarrow> nat \<Rightarrow> Scheduler \<Rightarrow> AcquiredPage \<times> Scheduler" where
  "acquire_resume availableIndex pg task now s =
     (\<lparr>acquired_page = pg, index = availableIndex, release_task = task\<rparr>,
      s\<lparr>pages := (if availableIndex < length (pages s)
                   then (pages s)[availableIndex := (pages s ! availableIndex)\<lparr>lastActivated := now\<rparr>]
                   else pages s),
        activeTasks := insert task (activeTasks s)\<rparr>)"

text \<open>The release callback of a capability.\<close>

definition release :: "AcquiredPage \<Rightarrow> Scheduler \<Rightarrow> Scheduler" where
  "release a s =
     s\<lparr>pages := (if index a < length (pages s)
                  then (pages s)[index a := (pages s ! index a)\<lparr>busy := False\<rparr>]
                  else pages s),
       activeTasks := activeTasks s - {release_task a}\<rparr>"

definition getBusyCount :: "Scheduler \<Rightarrow> nat" where
  "getBusyCount s = length (filter busy (pages s))"

subsection \<open>Cleanup\<close>

text \<open>\<^verbatim>\<open>cleanup\<close> up to its wait for the active tasks, and from there to its end.\<close>

definition cleanup_begin :: "Scheduler \<Rightarrow> Scheduler" where
  "cleanup_begin s = stopRotation (s\<lparr>shuttingDown := True, cleanupStarted := True\<rparr>)"

definition cleanup_finish :: "bool \<Rightarrow> Scheduler \<Rightarrow> Scheduler \<times> call list" where
  "cleanup_finish closePages s =
     (s\<lparr>pages := []\<rparr>, if closePages then map (\<lambda>ps. ClosePage (page ps)) (pages s) else [])"

subsection \<open>The pool and its clients\<close>

text \<open>
  The scheduler runs on one thread: between two suspension points a method runs alone.
  A run of the pool is a sequence of such uninterrupted pieces. Each call of
  \<^verbatim>\<open>acquirePage\<close> that has marked a slot is recorded as an acquisition, known by its
  position in \<open>acqs\<close>: it awaits the foreground call, then holds the capability, until its
  release callback is called; or the foreground call rejects, \<^verbatim>\<open>acquirePage\<close> throws
  and no capability exists.
\<close>

datatype status = AwaitingFront | Held | Released | Failed

record acquisition =
  slot :: nat
  handle :: page
  status :: status

record world =
  sched :: Scheduler
  acqs :: "acquisition list"
  calls :: "call list"

datatype event =
    StartRotation
  | StopRotation
  | Tick nat
  | AcquireScan
  | FrontDone nat nat
  | FrontFailed nat
  | Release nat
  | CleanupBegin
  | CleanupFinish bool

definition init :: "page list \<Rightarrow> nat \<Rightarrow> world" where
  "init pgs ms = \<lparr>sched = constructor pgs ms, acqs = [], calls = []\<rparr>"

text \<open>
  One piece of a run. The timer fires only while it is set. \<open>FrontDone k now\<close> and
  \<open>FrontFailed k\<close> end the wait of acquisition \<open>k\<close>. \<open>Release k\<close> is a call of the
  release callback of acquisition \<open>k\<close>, also a repeated one; there is no callback to
  call before \<^verbatim>\<open>acquirePage\<close> has returned it. \<open>CleanupFinish\<close> follows
  \<open>CleanupBegin\<close>.
\<close>

definition step :: "event \<Rightarrow> world \<Rightarrow> world" where
  "step ev w =
     (case ev of
        StartRotation \<Rightarrow> w\<lparr>sched := startRotation (sched w)\<rparr>
      | StopRotation \<Rightarrow> w\<lparr>sched := stopRotation (sched w)\<rparr>
      | Tick now \<Rightarrow>
          (if rotationTimerId (sched w) then
             (case rotateActivePage now (sched w) of
                (s', cs) \<Rightarrow> w\<lparr>sched := s', calls := calls w @ cs\<rparr>)
           else w)
      | AcquireScan \<Rightarrow>
          (case acquire_scan (sched w) of
             (AwaitFront i pg, s', cs) \<Rightarrow>
               w\<lparr>sched := s', calls := calls w @ cs,
                 acqs := acqs w @ [\<lparr>slot = i, handle = pg, status = AwaitingFront\<rparr>]\<rparr>
           | (_, s', cs) \<Rightarrow> w\<lparr>sched := s', calls := calls w @ cs\<rparr>)
      | FrontDone k now \<Rightarrow>
          (if k < length (acqs w) \<and> status (acqs w ! k) = AwaitingFront then
             (case acquire_resume (slot (acqs w ! k)) (handle (acqs w ! k)) k now (sched w) of
                (a, s') \<Rightarrow> w\<lparr>sched := s', acqs := (acqs w)[k := (acqs w ! k)\<lparr>status := Held\<rparr>]\<rparr>)
           else w)
      | FrontFailed k \<Rightarrow>
          (if k < length (acqs w) \<and> status (acqs w ! k) = AwaitingFront then
             w\<lparr>acqs := (acqs w)[k := (acqs w ! k)\<lparr>status := Failed\<rparr>]\<rparr>
           else w)
      | Release k \<Rightarrow>
          (if k < length (acqs w) \<and> (status (acqs w ! k) = Held \<or> status (acqs w ! k) = Released) then
             w\<lparr>sched := release \<lparr>acquired_page = handle (acqs w ! k), index = slot (acqs w ! k),
                                  release_task = k\<rparr> (sched w),
               acqs := (acqs w)[k := (acqs w ! k)\<lparr>status := Released\<rparr>]\<rparr>
           else w)
      | CleanupBegin \<Rightarrow> w\<lparr>sched := cleanup_begin (sched w)\<rparr>
      | CleanupFinish closePages \<Rightarrow>
          (if shuttingDown (sched w) then
             (case cleanup_finish closePages (sched w) of
                (s', cs) \<Rightarrow> w\<lparr>sched := s', calls := calls w @ cs\<rparr>)
           else w))"

fun run :: "event list \<Rightarrow> world \<Rightarrow> world" where
  "run [] w = w"
| "run (ev # evs) w = run evs (step ev w)"

text \<open>The acquisitions in flight: a slot has been marked for them and their release
  callback has not been called.\<close>

definition in_flight :: "world \<Rightarrow> nat list" where
  "in_flight w =
     filter (\<lambda>k. status (acqs w ! k) = AwaitingFront \<or> status (acqs w ! k) = Held) [0..<length (acqs w)]"

text \<open>The acquisitions whose release callback is called in a run, in order.\<close>

fun releases :: "event list \<Rightarrow> nat list" where
  "releases [] = []"
| "releases (Release k # evs) = k # releases evs"
| "releases (_ # evs) = releases evs"

text \<open>The calls made on pages by one piece of a run.\<close>

definition calls_of :: "event \<Rightarrow> world \<Rightarrow> call list" where
  "calls_of ev w = drop (length (calls w)) (calls (step ev w))"

subsection \<open>The invariant of the pool\<close>

text \<open>
  An acquisition holds its slot while it is in flight. The invariant relates the pool
  built over the pages \<open>pgs\<close> to the acquisitions: the handles of the slots are \<open>pgs\<close>
  until cleanup empties the pool; every acquisition was granted a slot of the pool and
  the page of that slot; the slot of an acquisition in flight is busy; two acquisitions in
  flight have different slots.
\<close>

definition holding :: "world \<Rightarrow> nat \<Rightarrow> bool" where
  "holding w k = (k < length (acqs w) \<and> (status (acqs w ! k) = AwaitingFront \<or> status (acqs w ! k) = Held))"

definition pool_inv :: "page list \<Rightarrow> world \<Rightarrow> bool" where
  "pool_inv pgs w =
     ((map page (pages (sched w)) = pgs \<or> (pages (sched w) = [] \<and> shuttingDown (sched w)))
      \<and> (\<forall>k < length (acqs w). slot (acqs w ! k) < length pgs
            \<and> handle (acqs w ! k) = pgs ! slot (acqs w ! k))
      \<and> (\<forall>k. holding w k \<longrightarrow> pages (sched w) \<noteq> [] \<longrightarrow> busy (pages (sched w) ! slot (acqs w ! k)))
      \<and> (\<forall>j k. holding w j \<longrightarrow> holding w k \<longrightarrow> slot (acqs w ! j) = slot (acqs w ! k) \<longrightarrow> j = k))"

text \<open>
  A call of a release callback that has been called before, made while an acquisition in
  flight sits on the slot of that callback. A run is free of such calls when none of its
  releases is one, each judged in the state in which it is made.
\<close>

definition stale_release :: "world \<Rightarrow> nat \<Rightarrow> bool" where
  "stale_release w k =
     (k < length (acqs w) \<and> status (acqs w ! k) = Released
      \<and> (\<exists>j \<in> set (in_flight w). slot (acqs w ! j) = slot (acqs w ! k)))"

fun no_stale_release :: "event list \<Rightarrow> world \<Rightarrow> bool" where
  "no_stale_release [] w = True"
| "no_stale_release (Release k # evs) w =
     (\<not> stale_release w k \<and> no_stale_release evs (step (Release k) w))"
| "no_stale_release (ev # evs) w = no_stale_release evs (step ev w)"

section \<open>The specification's reading of dates and tag lists\<close>

text \<open>
  The specification describes the date by positions: \<^verbatim>\<open>YYYY-MM-DD\<close>, optionally
  followed by \<^verbatim>\<open>T\<close> or a space and \<^verbatim>\<open>HH:MM\<close>, optionally \<^verbatim>\<open>:SS\<close>, and whatever comes
  after; reformatted to \<^verbatim>\<open>YYYY:MM:DD HH:MM:SS\<close> with \<^verbatim>\<open>00\<close> for a part that is
  missing. These definitions follow that description, not the code.
\<close>

definition spec_digits_at :: "string \<Rightarrow> nat \<Rightarrow> nat \<Rightarrow> bool" where
  "spec_digits_at s i n = (i + n \<le> length s \<and> list_all is_digit (take n (drop i s)))"

definition spec_char_at :: "string \<Rightarrow> nat \<Rightarrow> (char \<Rightarrow> bool) \<Rightarrow> bool" where
  "spec_char_at s i P = (i < length s \<and> P (s ! i))"

definition spec_sub :: "string \<Rightarrow> nat \<Rightarrow> nat \<Rightarrow> string" where
  "spec_sub s i n = take n (drop i s)"

definition spec_iso_like :: "string \<Rightarrow> bool" where
  "spec_iso_like s =
     (spec_digits_at s 0 4 \<and> spec_char_at s 4 (\<lambda>c. c = CHR ''-'') \<and> spec_digits_at s 5 2
      \<and> spec_char_at s 7 (\<lambda>c. c = CHR ''-'') \<and> spec_digits_at s 8 2)"

definition spec_has_time :: "string \<Rightarrow> bool" where
  "spec_has_time s =
     (spec_char_at s 10 (\<lambda>c. c = CHR ''T'' \<or> c = CHR '' '') \<and> spec_digits_at s 11 2
      \<and> spec_char_at s 13 (\<lambda>c. c = CHR '':'') \<and> spec_digits_at s 14 2)"

definition spec_has_seconds :: "string \<Rightarrow> bool" where
  "spec_has_seconds s =
     (spec_has_time s \<and> spec_char_at s 16 (\<lambda>c. c = CHR '':'') \<and> spec_digits_at s 17 2)"

definition spec_exif_date :: "string \<Rightarrow> string" where
  "spec_exif_date s =
     spec_sub s 0 4 @ '':'' @ spec_sub s 5 2 @ '':'' @ spec_sub s 8 2 @ '' ''
     @ (if spec_has_time s then spec_sub s 11 2 else ''00'') @ '':''
     @ (if spec_has_time s then spec_sub s 14 2 else ''00'') @ '':''
     @ (if spec_has_seconds s then spec_sub s 17 2 else ''00'')"

text \<open>A comma-separated list, as the \<^verbatim>\<open>tags\<close> field holds it.\<close>

fun comma_join :: "string list \<Rightarrow> string" where
  "comma_join [] = []"
| "comma_join [t] = t"
| "comma_join (t # ts) = t @ '','' @ comma_join ts"

text \<open>Metadata that sets the tags only.\<close>

definition only_tags :: "string \<Rightarrow> ImageMetadata" where
  "only_tags s =
     \<lparr>titleField = None, subjectField = None, tags = Some s, comments = None, authors = None,
      dateTaken = None, copyright = None\<rparr>"

section \<open>A sample run\<close>

text \<open>
  A page whose signal element carries a data URL from the start, libraries that
  succeed, a metadata tool that exits with code 1, and thresholds small enough for the
  four bytes of the sample payload. Variations of it serve as concrete inputs below.
\<close>

definition sample_env :: env where
  "sample_env =
     \<lparr>dom = (\<lambda>t. Element (Some ''data:image/png;base64,QUJD'') None),
      lat = (\<lambda>t. 0),
      front_ok = True,
      write_ok = (\<lambda>p. True),
      b64decode = (\<lambda>s. s),
      transcode = (\<lambda>b q. Some b),
      image_dims = (\<lambda>b. Some (Some 600, Some 600)),
      exiftool = (\<lambda>args b. Closed (Some 1) b)\<rparr>"

definition sample_cfg :: ScraperConfig where
  "sample_cfg =
     \<lparr>initialRenderWaitMs = None, postResizeWaitMs = None, maxRenderWaitMs = Some 150,
      jpgQualityFull = None, jpgQualityThumbnail = None,
      minValidFileSize = Some 2, minValidDimensions = None\<rparr>"

section \<open>Properties of the metadata arguments\<close>

lemma take_digits_at:
  "0 < n \<Longrightarrow> take_digits n (drop i s) =
     (if spec_digits_at s i n then Some (spec_sub s i n, drop (i + n) s) else None)"
  by (auto simp: take_digits_def spec_digits_at_def spec_sub_def list_all_iff add.commute)

lemma take_char_at:
  "take_char P (drop i s) = (if spec_char_at s i P then Some (drop (Suc i) s) else None)"
proof (cases "i < length s")
  case True
  then have "drop i s = s ! i # drop (Suc i) s"
    by (simp add: Cons_nth_drop_Suc)
  with True show ?thesis
    by (simp add: take_char_def spec_char_at_def)
next
  case False
  then show ?thesis
    by (simp add: take_char_def spec_char_at_def)
qed

lemma match_seconds_at:
  "match_seconds (drop 16 s) =
     (if spec_char_at s 16 (\<lambda>c. c = CHR '':'') \<and> spec_digits_at s 17 2
      then Some (spec_sub s 17 2) else None)"
  using take_digits_at [of 2 17 s] by (simp add: match_seconds_def take_char_at)

lemma match_time_at:
  "match_time (drop 10 s) =
     (if spec_has_time s
      then Some (spec_sub s 11 2, spec_sub s 14 2,
                 if spec_has_seconds s then Some (spec_sub s 17 2) else None)
      else None)"
  using take_digits_at [of 2 11 s] take_digits_at [of 2 14 s] match_seconds_at [of s]
  by (simp add: match_time_def take_char_at spec_has_time_def spec_has_seconds_def)

lemma isoMatch_at:
  "isoMatch s =
     (if spec_iso_like s
      then Some (spec_sub s 0 4, spec_sub s 5 2, spec_sub s 8 2,
                 if spec_has_time s then Some (spec_sub s 11 2) else None,
                 if spec_has_time s then Some (spec_sub s 14 2) else None,
                 if spec_has_seconds s then Some (spec_sub s 17 2) else None)
      else None)"
  using take_digits_at [of 4 0 s] take_digits_at [of 2 5 s] take_digits_at [of 2 8 s]
    take_char_at [of _ 4 s] take_char_at [of _ 7 s] match_time_at [of s]
  by (simp add: isoMatch_def spec_iso_like_def spec_has_seconds_def)

lemma iso_like_nonempty: "spec_iso_like s \<Longrightarrow> s \<noteq> []"
  by (auto simp: spec_iso_like_def spec_digits_at_def)

lemma date_args_iso:
  "spec_iso_like s \<Longrightarrow>
     date_args (Some s) =
       ([''-EXIF:DateTimeOriginal='' @ spec_exif_date s, ''-EXIF:CreateDate='' @ spec_exif_date s,
         ''-XMP:DateCreated='' @ s], [])"
  by (simp add: date_args_def truthy_def iso_like_nonempty isoMatch_at spec_exif_date_def
      or_default_def spec_has_seconds_def Let_def)

lemma date_args_not_iso:
  "\<not> spec_iso_like s \<Longrightarrow> s \<noteq> [] \<Longrightarrow>
     date_args (Some s) =
       ([], [''[SmartFrame Canvas] Date format not recognized, skipping date embedding: '' @ s])"
  by (simp add: date_args_def truthy_def isoMatch_at)

lemma date_args_absent: "date_args None = ([], [])"
  by (simp add: date_args_def truthy_def)

lemma example_date_iso:
  "spec_iso_like ''2016-07-18T14:30:00'' \<and>
   spec_exif_date ''2016-07-18T14:30:00'' = ''2016:07:18 14:30:00''"
  by (simp add: spec_iso_like_def spec_exif_date_def spec_digits_at_def spec_char_at_def
      spec_sub_def spec_has_time_def spec_has_seconds_def is_digit_def)

text \<open>
  C8. For every \<^verbatim>\<open>dateTaken\<close> of the ISO-like shape, the two primary date tags
  (\<^verbatim>\<open>EXIF:DateTimeOriginal\<close>, \<^verbatim>\<open>EXIF:CreateDate\<close>) receive the string rebuilt by
  position as \<^verbatim>\<open>YYYY:MM:DD HH:MM:SS\<close>, with \<^verbatim>\<open>00\<close> for a missing time part, and
  \<^verbatim>\<open>XMP:DateCreated\<close> receives the original string unchanged; no warning is logged.
  The value is a function of the characters of the string alone: no clock and no time
  zone enter it. A non-empty date of any other shape adds no argument at all, so that the
  argument list is the one of metadata without a date, and logs one warning. The example
  \<^verbatim>\<open>2016-07-18T14:30:00\<close> gives \<^verbatim>\<open>2016:07:18 14:30:00\<close>.
\<close>

theorem date_taken_reformatted:
  "(spec_iso_like s \<longrightarrow>
      fst (date_args (dateTaken (md\<lparr>dateTaken := Some s\<rparr>))) =
        [''-EXIF:DateTimeOriginal='' @ spec_exif_date s, ''-EXIF:CreateDate='' @ spec_exif_date s,
         ''-XMP:DateCreated='' @ s]
      \<and> exif_warnings (md\<lparr>dateTaken := Some s\<rparr>) = []
      \<and> set (fst (date_args (Some s))) \<subseteq> set (exif_args path (md\<lparr>dateTaken := Some s\<rparr>)))
   \<and> (\<not> spec_iso_like s \<and> s \<noteq> [] \<longrightarrow>
      exif_args path (md\<lparr>dateTaken := Some s\<rparr>) = exif_args path (md\<lparr>dateTaken := None\<rparr>)
      \<and> exif_warnings (md\<lparr>dateTaken := Some s\<rparr>) =
          [''[SmartFrame Canvas] Date format not recognized, skipping date embedding: '' @ s])
   \<and> spec_iso_like ''2016-07-18T14:30:00''
   \<and> spec_exif_date ''2016-07-18T14:30:00'' = ''2016:07:18 14:30:00''"
  using example_date_iso
  by (auto simp: date_args_iso date_args_not_iso date_args_absent exif_args_def exif_warnings_def)

theorem date_taken_reformatted_witness:
  "fst (date_args (Some ''2016-07-18T14:30:00'')) =
     [''-EXIF:DateTimeOriginal=2016:07:18 14:30:00'', ''-EXIF:CreateDate=2016:07:18 14:30:00'',
      ''-XMP:DateCreated=2016-07-18T14:30:00'']
   \<and> exif_warnings (only_tags ''x''\<lparr>dateTaken := Some ''18 Jul 2016''\<rparr>) =
       [''[SmartFrame Canvas] Date format not recognized, skipping date embedding: 18 Jul 2016'']
   \<and> exif_args ''o.jpg'' (only_tags ''x''\<lparr>dateTaken := Some ''18 Jul 2016''\<rparr>) =
       exif_args ''o.jpg'' (only_tags ''x''\<lparr>dateTaken := None\<rparr>)"
proof -
  have a: "spec_iso_like ''2016-07-18T14:30:00''"
    using example_date_iso by simp
  have b: "\<not> spec_iso_like ''18 Jul 2016'' \<and> ''18 Jul 2016'' \<noteq> []"
    by (simp add: spec_iso_like_def spec_digits_at_def is_digit_def)
  show ?thesis
    using a b date_taken_reformatted [of "''2016-07-18T14:30:00''" "only_tags ''x''" "''o.jpg''"]
      date_taken_reformatted [of "''18 Jul 2016''" "only_tags ''x''" "''o.jpg''"]
    by simp
qed

lemma split_on_nonempty: "split_on sep s \<noteq> []"
  by (induction s) (auto split: list.splits)

lemma split_on_no_sep: "sep \<notin> set t \<Longrightarrow> split_on sep t = [t]"
  by (induction t) auto

lemma split_on_piece: "sep \<notin> set t \<Longrightarrow> split_on sep (t @ sep # r) = t # split_on sep r"
  by (induction t) auto

lemma split_on_comma_join:
  "ts \<noteq> [] \<Longrightarrow> \<forall>t \<in> set ts. CHR '','' \<notin> set t \<Longrightarrow> split_on CHR '','' (comma_join ts) = ts"
proof (induction ts rule: comma_join.induct)
  case 1
  then show ?case by simp
next
  case (2 t)
  then show ?case by (simp add: split_on_no_sep)
next
  case (3 t u us)
  then show ?case by (simp add: split_on_piece)
qed

lemma tagList_example: "tagList ''a, b ,b,'' = [''a'', ''b'', ''b'']"
  by (simp add: tagList_def trim_def is_space_def)

lemma tagList_no_break_space: "tagList (''a,'' @ [CHR 0xA0] @ '',b'') = [''a'', ''b'']"
  by (simp add: tagList_def trim_def is_space_def)

text \<open>
  C7, as stated, fails: for the tags \<^verbatim>\<open>a, b ,b,\<close> the keyword \<^verbatim>\<open>b\<close> is added twice.
\<close>

theorem tags_each_added_once_counterexample:
  "count_list (exif_args ''out.jpg'' (only_tags ''a, b ,b,'')) ''-IPTC:Keywords+=b'' = 2"
  by (simp add: exif_args_def only_tags_def field_args_def truthy_def date_args_def tag_args_def
      tagList_example)

text \<open>
  C7, amended. The tags string is split on commas into trimmed, non-empty tokens, and
  each token, in order and as often as it occurs, is appended to the argument list as one
  \<^verbatim>\<open>IPTC:Keywords+=\<close> and one \<^verbatim>\<open>XMP:Subject+=\<close> argument, just before the file path.
  Nothing removes duplicates: \<^verbatim>\<open>a, b ,b,\<close> gives the three tokens \<^verbatim>\<open>a\<close>, \<^verbatim>\<open>b\<close>,
  \<^verbatim>\<open>b\<close>.
\<close>

theorem tags_each_token_appended:
  "(ts \<noteq> [] \<and> (\<forall>t \<in> set ts. CHR '','' \<notin> set t) \<and> comma_join ts \<noteq> [] \<longrightarrow>
      tag_args (Some (comma_join ts)) =
        concat (map (\<lambda>t. [''-IPTC:Keywords+='' @ t, ''-XMP:Subject+='' @ t])
                  (filter (\<lambda>t. t \<noteq> []) (map trim ts))))
   \<and> tag_args (tags (only_tags ''a, b ,b,'')) =
       [''-IPTC:Keywords+=a'', ''-XMP:Subject+=a'', ''-IPTC:Keywords+=b'', ''-XMP:Subject+=b'',
        ''-IPTC:Keywords+=b'', ''-XMP:Subject+=b'']
   \<and> (\<exists>before. exif_args path md = before @ tag_args (tags md) @ [path])"
proof (intro conjI impI)
  assume a: "ts \<noteq> [] \<and> (\<forall>t \<in> set ts. CHR '','' \<notin> set t) \<and> comma_join ts \<noteq> []"
  then have "tagList (comma_join ts) = filter (\<lambda>t. t \<noteq> []) (map trim ts)"
    by (simp add: tagList_def split_on_comma_join)
  moreover have "tag_args (Some (comma_join ts)) =
      concat (map (\<lambda>t. [''-IPTC:Keywords+='' @ t, ''-XMP:Subject+='' @ t]) (tagList (comma_join ts)))"
    using a by (cases "tagList (comma_join ts)") (simp_all add: tag_args_def truthy_def)
  ultimately show "tag_args (Some (comma_join ts)) =
        concat (map (\<lambda>t. [''-IPTC:Keywords+='' @ t, ''-XMP:Subject+='' @ t])
                  (filter (\<lambda>t. t \<noteq> []) (map trim ts)))"
    by simp
next
  show "tag_args (tags (only_tags ''a, b ,b,'')) =
       [''-IPTC:Keywords+=a'', ''-XMP:Subject+=a'', ''-IPTC:Keywords+=b'', ''-XMP:Subject+=b'',
        ''-IPTC:Keywords+=b'', ''-XMP:Subject+=b'']"
    by (simp add: tag_args_def truthy_def only_tags_def tagList_example)
next
  show "\<exists>before. exif_args path md = before @ tag_args (tags md) @ [path]"
    by (simp add: exif_args_def)
qed

theorem tags_each_token_appended_witness:
  "tag_args (Some ''a, b ,b,'') =
     concat (map (\<lambda>t. [''-IPTC:Keywords+='' @ t, ''-XMP:Subject+='' @ t])
               (filter (\<lambda>t. t \<noteq> []) (map trim [''a'', '' b '', ''b'', ''''])))"
  using tags_each_token_appended [of "[''a'', '' b '', ''b'', '''']"]
  by simp

section \<open>Properties of the extractor\<close>

lemma or_else_pos: "0 < d \<Longrightarrow> 0 < or_else x d"
  by (simp add: or_else_def split: option.splits)

lemma maxWaitMs_pos: "0 < maxWaitMs_of cfg"
  by (simp add: maxWaitMs_of_def or_else_pos)

lemma png_not_jpg: "pngPath d i m \<noteq> jpgPath d i m"
  by (simp add: pngPath_def jpgPath_def path_join_def pngFilename_def jpgFilename_def)

lemma poll_not_ready_late:
  "poll e maxWaitMs startTime attempt t = Inr (False, t4) \<Longrightarrow> maxWaitMs \<le> t4 - startTime \<and> t \<le> t4"
proof (induction e maxWaitMs startTime attempt t rule: poll.induct)
  case (1 e maxWaitMs startTime attempt t)
  show ?case
  proof (cases "t - startTime < maxWaitMs")
    case False
    with "1.prems" show ?thesis
      by (simp add: poll.simps [of e maxWaitMs startTime attempt t])
  next
    case True
    with "1.prems" have rec: "dom e t \<noteq> PageGone" "\<not> hasResponse (dom e t)"
      "poll e maxWaitMs startTime (attempt + 1) (after_backoff e attempt (t + lat e t)) = Inr (False, t4)"
      by (auto simp: poll.simps [of e maxWaitMs startTime attempt t] split: if_splits)
    from "1.IH" [OF True rec] have "maxWaitMs \<le> t4 - startTime"
      and "after_backoff e attempt (t + lat e t) \<le> t4"
      by simp_all
    moreover have "t \<le> after_backoff e attempt (t + lat e t)"
      by (simp add: after_backoff_def wait_def Let_def)
    ultimately show ?thesis by simp
  qed
qed

lemma poll_times_out:
  "\<forall>u. u < startTime + maxWaitMs \<longrightarrow> \<not> hasResponse (dom e u) \<and> dom e u \<noteq> PageGone \<Longrightarrow>
   \<exists>t4. poll e maxWaitMs startTime attempt t = Inr (False, t4)"
proof (induction e maxWaitMs startTime attempt t rule: poll.induct)
  case (1 e maxWaitMs startTime attempt t)
  show ?case
  proof (cases "t - startTime < maxWaitMs")
    case False
    then show ?thesis
      by (simp add: poll.simps [of e maxWaitMs startTime attempt t])
  next
    case True
    then have "t < startTime + maxWaitMs" by simp
    with "1.prems" have quiet: "dom e t \<noteq> PageGone" "\<not> hasResponse (dom e t)"
      by simp_all
    from "1.IH" [OF True quiet "1.prems"] quiet True show ?thesis
      by (simp add: poll.simps [of e maxWaitMs startTime attempt t])
  qed
qed

lemma embed_keeps_file:
  "embedExifMetadata e path md fs = (r, fs') \<Longrightarrow> fs path \<noteq> None \<Longrightarrow> fs' path \<noteq> None"
  by (auto simp: embedExifMetadata_def split: option.splits exif_outcome.splits)

lemma embed_frame:
  "embedExifMetadata e path md fs = (r, fs') \<Longrightarrow> q \<noteq> path \<Longrightarrow> fs' q = fs q"
  by (auto simp: embedExifMetadata_def split: option.splits exif_outcome.splits)

lemma validate_frame:
  "validate_and_embed e cfg i path md S t fs = (r, fs') \<Longrightarrow> q \<noteq> path \<Longrightarrow> fs' q = fs q"
  by (auto simp: validate_and_embed_def Let_def split: option.splits prod.splits sum.splits if_splits
      dest: embed_frame)

lemma validate_success:
  "validate_and_embed e cfg i path md S t fs = (Inr p, fs') \<Longrightarrow> p = path \<and> fs' path \<noteq> None"
  by (auto simp: validate_and_embed_def Let_def split: option.splits prod.splits sum.splits if_splits
      dest: embed_keeps_file)

lemma save_result:
  "save_and_convert e cfg i d m url t fs = (Inr t6, fs1) \<Longrightarrow>
     fs1 (jpgPath d i m) \<noteq> None \<and> fs1 (pngPath d i m) = None"
  using png_not_jpg [of d i m]
  by (auto simp: save_and_convert_def Let_def split: list.splits option.splits if_splits)

lemma body_success:
  "extract_body e cfg i d m md t0 fs = (Inr p, fs') \<Longrightarrow> p = jpgPath d i m \<and> fs' p \<noteq> None"
  by (auto simp: extract_body_def Let_def split: if_splits sum.splits prod.splits
      dest: validate_success)


lemma poll_first_check:
  "0 < maxWaitMs \<Longrightarrow> hasResponse (dom e t) \<Longrightarrow> dom e t \<noteq> PageGone \<Longrightarrow>
     poll e maxWaitMs t attempt t = Inr (True, t + lat e t)"
  by (simp add: poll.simps [of e maxWaitMs t attempt t])

lemma payload_present:
  "startsWith url data_prefix \<Longrightarrow>
     \<exists>rest. split_on CHR '','' url = ''data:image/png;base64'' # hd (tl (split_on CHR '','' url)) # rest"
proof -
  assume "startsWith url data_prefix"
  then have "url = ''data:image/png;base64'' @ CHR '','' # drop (length data_prefix) url"
    using append_take_drop_id [of "length data_prefix" url]
    by (simp add: startsWith_def data_prefix_def)
  then have "split_on CHR '','' url =
      ''data:image/png;base64'' # split_on CHR '','' (drop (length data_prefix) url)"
    using split_on_piece [of "CHR '',''" "''data:image/png;base64''" "drop (length data_prefix) url"]
    by simp
  then show ?thesis
    using split_on_nonempty [of "CHR '',''" "drop (length data_prefix) url"]
    by (cases "split_on CHR '','' (drop (length data_prefix) url)") simp_all
qed

lemma read_signal_url:
  "read_signal e i S t = Inr (url, t5) \<Longrightarrow> startsWith url data_prefix"
  by (auto simp: read_signal_def Let_def split: sum.splits if_splits)

text \<open>
  C2. \<^verbatim>\<open>extractCanvasImage\<close> always resolves and never rejects: whatever the body of
  its \<^verbatim>\<open>try\<close> block throws (a timeout, an extension or validation error, an exception
  of the driver, the image library, the file system or the process spawner), the result is
  \<^verbatim>\<open>null\<close>; when the body returns, the result is the path of the JPG, which then exists.
\<close>

theorem extract_never_throws:
  "(\<exists>r. fst (extractCanvasImage e cfg i d m md t0 fs) = Inr r)
   \<and> (extract_body e cfg i d m md t0 fs = (Inl x, fs1) \<longrightarrow>
        extractCanvasImage e cfg i d m md t0 fs = (Inr None, fs1))
   \<and> (extract_body e cfg i d m md t0 fs = (Inr p, fs2) \<longrightarrow>
        extractCanvasImage e cfg i d m md t0 fs = (Inr (Some p), fs2)
        \<and> p = jpgPath d i m \<and> fs2 p \<noteq> None)"
proof (intro conjI impI)
  show "\<exists>r. fst (extractCanvasImage e cfg i d m md t0 fs) = Inr r"
    by (simp add: extractCanvasImage_def split: prod.splits sum.splits)
next
  assume "extract_body e cfg i d m md t0 fs = (Inl x, fs1)"
  then show "extractCanvasImage e cfg i d m md t0 fs = (Inr None, fs1)"
    by (simp add: extractCanvasImage_def)
next
  assume "extract_body e cfg i d m md t0 fs = (Inr p, fs2)"
  then show "extractCanvasImage e cfg i d m md t0 fs = (Inr (Some p), fs2)"
    by (simp add: extractCanvasImage_def)
next
  assume "extract_body e cfg i d m md t0 fs = (Inr p, fs2)"
  then show "p = jpgPath d i m" by (simp add: body_success)
next
  assume "extract_body e cfg i d m md t0 fs = (Inr p, fs2)"
  then show "fs2 p \<noteq> None" using body_success by blast
qed

lemma body_stages:
  "front_ok e \<Longrightarrow>
   poll e (maxWaitMs_of cfg) (startTime_of e cfg t0) 0 (startTime_of e cfg t0) = Inr (True, t4) \<Longrightarrow>
   read_signal e i (startTime_of e cfg t0) t4 = Inr (url, t5) \<Longrightarrow>
   save_and_convert e cfg i d m url t5 fs = (Inr t6, fs1) \<Longrightarrow>
   extract_body e cfg i d m md t0 fs =
     validate_and_embed e cfg i (jpgPath d i m) md (startTime_of e cfg t0) t6 fs1"
  by (simp add: extract_body_def)

lemma sample_clock: "lat e = (\<lambda>t. 0) \<Longrightarrow> startTime_of e sample_cfg 0 = 1250"
  by (simp add: startTime_of_def wait_def sample_cfg_def or_else_def)

lemma sample_max_wait: "maxWaitMs_of sample_cfg = 150"
  by (simp add: maxWaitMs_of_def sample_cfg_def or_else_def)

lemma sample_poll:
  "lat e = (\<lambda>t. 0) \<Longrightarrow> dom e 1250 = Element u er \<Longrightarrow> u \<noteq> None \<or> er \<noteq> None \<Longrightarrow>
     poll e 150 1250 0 1250 = Inr (True, 1250)"
  using poll_first_check [of 150 e 1250 0] by (simp add: hasResponse_def)

lemma sample_read:
  "lat e = (\<lambda>t. 0) \<Longrightarrow> dom e 1250 = Element (Some ''data:image/png;base64,QUJD'') None \<Longrightarrow>
     read_signal e i 1250 1250 = Inr (''data:image/png;base64,QUJD'', 1250)"
  by (simp add: read_signal_def eval_attr_def attr_url_def attr_error_def truthy_def
      startsWith_def data_prefix_def)

lemma sample_names:
  "pngPath ''out'' ''img 1'' Thumbnail = ''out/img-1_canvas_thumbnail.png''"
  "jpgPath ''out'' ''img 1'' Thumbnail = ''out/img-1_canvas_thumbnail.jpg''"
  by (simp_all add: pngPath_def jpgPath_def path_join_def pngFilename_def jpgFilename_def
      sanitizedId_def id_char_ok_def is_alpha_def is_digit_def mode_name_def)

lemma sample_quality: "jpgQuality sample_cfg Thumbnail = 80"
  by (simp add: jpgQuality_def sample_cfg_def or_else_def)

lemma sample_save:
  "lat e = (\<lambda>t. 0) \<Longrightarrow> write_ok e ''out/img-1_canvas_thumbnail.png'' \<Longrightarrow>
   b64decode e ''QUJD'' = ''QUJD'' \<Longrightarrow> transcode e ''QUJD'' 80 = Some out \<Longrightarrow>
     save_and_convert e sample_cfg ''img 1'' ''out'' Thumbnail ''data:image/png;base64,QUJD''
       1250 Map.empty =
     (Inr 1250, [''out/img-1_canvas_thumbnail.jpg'' \<mapsto> out])"
  by (simp add: save_and_convert_def sample_names sample_quality Let_def)

lemma sample_thresholds:
  "or_else (minValidFileSize sample_cfg) 51200 = 2" "or_else (minValidDimensions sample_cfg) 500 = 500"
  by (simp_all add: sample_cfg_def or_else_def)

lemma sample_env_fields:
  "lat sample_env = (\<lambda>t. 0)" "front_ok sample_env"
  "dom sample_env = (\<lambda>t. Element (Some ''data:image/png;base64,QUJD'') None)"
  "write_ok sample_env = (\<lambda>p. True)" "b64decode sample_env = (\<lambda>s. s)"
  "transcode sample_env = (\<lambda>b q. Some b)"
  "image_dims sample_env = (\<lambda>b. Some (Some 600, Some 600))"
  "exiftool sample_env = (\<lambda>args b. Closed (Some 1) b)"
  by (simp_all add: sample_env_def)

lemma sample_body:
  "extract_body sample_env sample_cfg ''img 1'' ''out'' Thumbnail None 0 Map.empty =
     (Inr ''out/img-1_canvas_thumbnail.jpg'', [''out/img-1_canvas_thumbnail.jpg'' \<mapsto> ''QUJD''])"
proof -
  have "extract_body sample_env sample_cfg ''img 1'' ''out'' Thumbnail None 0 Map.empty =
      validate_and_embed sample_env sample_cfg ''img 1'' ''out/img-1_canvas_thumbnail.jpg'' None
        1250 1250 [''out/img-1_canvas_thumbnail.jpg'' \<mapsto> ''QUJD'']"
    using body_stages [of sample_env sample_cfg 0 1250 "''img 1''" "''data:image/png;base64,QUJD''"
        1250 "''out''" Thumbnail Map.empty 1250 "[''out/img-1_canvas_thumbnail.jpg'' \<mapsto> ''QUJD'']" None]
      sample_poll [of sample_env "Some ''data:image/png;base64,QUJD''" None]
      sample_read [of sample_env "''img 1''"]
      sample_save [of sample_env "''QUJD''"]
    by (simp add: sample_env_fields sample_clock sample_max_wait sample_names)
  also have "\<dots> = (Inr ''out/img-1_canvas_thumbnail.jpg'', [''out/img-1_canvas_thumbnail.jpg'' \<mapsto> ''QUJD''])"
    by (simp add: validate_and_embed_def sample_cfg_def sample_env_fields or_else_def)
  finally show ?thesis .
qed

theorem extract_never_throws_witness:
  "extract_body sample_env sample_cfg ''img 1'' ''out'' Thumbnail None 0 Map.empty =
     (Inr ''out/img-1_canvas_thumbnail.jpg'', [''out/img-1_canvas_thumbnail.jpg'' \<mapsto> ''QUJD''])
   \<and> extractCanvasImage sample_env sample_cfg ''img 1'' ''out'' Thumbnail None 0 Map.empty =
     (Inr (Some ''out/img-1_canvas_thumbnail.jpg''), [''out/img-1_canvas_thumbnail.jpg'' \<mapsto> ''QUJD''])
   \<and> extract_body (sample_env\<lparr>front_ok := False\<rparr>) sample_cfg ''img 1'' ''out'' Thumbnail None 0 Map.empty =
     (Inl (ExternalError ''bringToFront''), Map.empty)
   \<and> extractCanvasImage (sample_env\<lparr>front_ok := False\<rparr>) sample_cfg ''img 1'' ''out'' Thumbnail None 0
       Map.empty = (Inr None, Map.empty)"
proof -
  have failing: "extract_body (sample_env\<lparr>front_ok := False\<rparr>) sample_cfg ''img 1'' ''out'' Thumbnail None 0
      Map.empty = (Inl (ExternalError ''bringToFront''), Map.empty)"
    by (simp add: extract_body_def)
  show ?thesis
    using sample_body failing
      extract_never_throws [of sample_env sample_cfg "''img 1''" "''out''" Thumbnail None 0 Map.empty
        _ _ "''out/img-1_canvas_thumbnail.jpg''" "[''out/img-1_canvas_thumbnail.jpg'' \<mapsto> ''QUJD'']"]
      extract_never_throws [of "sample_env\<lparr>front_ok := False\<rparr>" sample_cfg "''img 1''" "''out''"
        Thumbnail None 0 Map.empty "ExternalError ''bringToFront''" Map.empty]
    by simp
qed

text \<open>
  C3. Once polling has seen the signal, the data attribute and then the error attribute
  are read. If the element has a non-empty error attribute, the body throws an extension
  error carrying exactly that text, whatever the data attribute holds, and the files are
  as before the call. If the error attribute is not set or is empty and the data attribute
  is not set, is empty or does not start with \<^verbatim>\<open>data:image/png;base64,\<close>, the body
  throws an extension error with the message \<^verbatim>\<open>No valid canvas data URL received\<close>,
  again without touching the files.
\<close>

theorem extension_error_wins:
  "front_ok e
   \<and> poll e (maxWaitMs_of cfg) (startTime_of e cfg t0) 0 (startTime_of e cfg t0) = Inr (True, t4)
   \<and> dom e t4 = Element u1 er1 \<and> dom e (t4 + lat e t4) = Element u2 er2
   \<longrightarrow>
     (truthy er2 \<longrightarrow>
        extract_body e cfg i d m md t0 fs =
          (Inl (CanvasExtensionError i (the er2)
                  (t4 + lat e t4 + lat e (t4 + lat e t4) - startTime_of e cfg t0)), fs)
        \<and> extractCanvasImage e cfg i d m md t0 fs = (Inr None, fs))
     \<and> (\<not> truthy er2 \<and> (\<not> truthy u1 \<or> \<not> startsWith (the u1) data_prefix) \<longrightarrow>
        extract_body e cfg i d m md t0 fs =
          (Inl (CanvasExtensionError i ''No valid canvas data URL received''
                  (t4 + lat e t4 + lat e (t4 + lat e t4) - startTime_of e cfg t0)), fs)
        \<and> extractCanvasImage e cfg i d m md t0 fs = (Inr None, fs))"
  by (auto simp: extract_body_def extractCanvasImage_def read_signal_def eval_attr_def attr_url_def
      attr_error_def Let_def)

theorem extension_error_wins_witness:
  "extract_body
     (sample_env\<lparr>dom := (\<lambda>t. Element (Some ''data:image/png;base64,QUJD'') (Some ''render failed''))\<rparr>)
     sample_cfg ''img 1'' ''out'' Thumbnail None 0 Map.empty =
     (Inl (CanvasExtensionError ''img 1'' ''render failed'' 0), Map.empty)
   \<and> extract_body (sample_env\<lparr>dom := (\<lambda>t. Element (Some ''QUJD'') None)\<rparr>) sample_cfg ''img 1'' ''out''
       Thumbnail None 0 Map.empty =
     (Inl (CanvasExtensionError ''img 1'' ''No valid canvas data URL received'' 0), Map.empty)"
proof -
  let ?e = "sample_env\<lparr>dom := (\<lambda>t. Element (Some ''data:image/png;base64,QUJD'') (Some ''render failed''))\<rparr>"
  let ?f = "sample_env\<lparr>dom := (\<lambda>t. Element (Some ''QUJD'') None)\<rparr>"
  have e: "lat ?e = (\<lambda>t. 0)" "front_ok ?e"
    "dom ?e = (\<lambda>t. Element (Some ''data:image/png;base64,QUJD'') (Some ''render failed''))"
    by (simp_all add: sample_env_fields)
  have f: "lat ?f = (\<lambda>t. 0)" "front_ok ?f" "dom ?f = (\<lambda>t. Element (Some ''QUJD'') None)"
    by (simp_all add: sample_env_fields)
  have pe: "poll ?e 150 1250 0 1250 = Inr (True, 1250)"
    using sample_poll [of ?e "Some ''data:image/png;base64,QUJD''" "Some ''render failed''"] e by simp
  have pf: "poll ?f 150 1250 0 1250 = Inr (True, 1250)"
    using sample_poll [of ?f "Some ''QUJD''" None] f by simp
  show ?thesis
    using e f pe pf
      extension_error_wins [of ?e sample_cfg 0 1250 "Some ''data:image/png;base64,QUJD''"
        "Some ''render failed''" "Some ''data:image/png;base64,QUJD''" "Some ''render failed''"
        "''img 1''" "''out''" Thumbnail None Map.empty]
      extension_error_wins [of ?f sample_cfg 0 1250 "Some ''QUJD''" None "Some ''QUJD''" None
        "''img 1''" "''out''" Thumbnail None Map.empty]
    by (simp add: sample_clock sample_max_wait truthy_def startsWith_def data_prefix_def)
qed

lemma reread_error: "(case eval_attr attr_error sg of Inl _ \<Rightarrow> None | Inr v \<Rightarrow> v) = attr_error sg"
  by (cases sg) (simp_all add: eval_attr_def attr_error_def)

lemma body_timeout:
  "front_ok e \<Longrightarrow>
   poll e (maxWaitMs_of cfg) (startTime_of e cfg t0) 0 (startTime_of e cfg t0) = Inr (False, t4) \<Longrightarrow>
   extract_body e cfg i d m md t0 fs =
     (Inl (CanvasTimeoutError i (t4 + lat e t4 - startTime_of e cfg t0) (maxWaitMs_of cfg)
             (if truthy (attr_error (dom e t4)) then attr_error (dom e t4) else None)), fs)"
  by (simp add: extract_body_def timeout_failure_def reread_error Let_def)

text \<open>
  C4. When the polling loop ends without having seen the signal, the error attribute is
  read once more and the body throws a timeout error that carries the time elapsed since
  polling started, which is at least the maximal wait, the maximal wait itself, and the
  text of the error attribute as just read when it is set and not empty, \<^verbatim>\<open>null\<close>
  otherwise (also when the element does not exist or the read fails). The loop does end
  in this way whenever no driver call made before the deadline sees the signal.
\<close>

theorem timeout_after_max_wait:
  "(front_ok e
    \<and> poll e (maxWaitMs_of cfg) (startTime_of e cfg t0) 0 (startTime_of e cfg t0) = Inr (False, t4)
    \<longrightarrow>
      extract_body e cfg i d m md t0 fs =
        (Inl (CanvasTimeoutError i (t4 + lat e t4 - startTime_of e cfg t0) (maxWaitMs_of cfg)
                (if truthy (attr_error (dom e t4)) then attr_error (dom e t4) else None)), fs)
      \<and> maxWaitMs_of cfg \<le> t4 + lat e t4 - startTime_of e cfg t0
      \<and> extractCanvasImage e cfg i d m md t0 fs = (Inr None, fs))
   \<and> ((\<forall>u. u < startTime_of e cfg t0 + maxWaitMs_of cfg \<longrightarrow>
            \<not> hasResponse (dom e u) \<and> dom e u \<noteq> PageGone)
      \<longrightarrow> (\<exists>t. poll e (maxWaitMs_of cfg) (startTime_of e cfg t0) 0 (startTime_of e cfg t0)
                 = Inr (False, t)))"
proof (intro conjI impI)
  assume a: "front_ok e
    \<and> poll e (maxWaitMs_of cfg) (startTime_of e cfg t0) 0 (startTime_of e cfg t0) = Inr (False, t4)"
  then show body: "extract_body e cfg i d m md t0 fs =
        (Inl (CanvasTimeoutError i (t4 + lat e t4 - startTime_of e cfg t0) (maxWaitMs_of cfg)
                (if truthy (attr_error (dom e t4)) then attr_error (dom e t4) else None)), fs)"
    by (simp add: body_timeout)
  from a have "maxWaitMs_of cfg \<le> t4 - startTime_of e cfg t0"
    using poll_not_ready_late by blast
  then show "maxWaitMs_of cfg \<le> t4 + lat e t4 - startTime_of e cfg t0"
    by simp
  from body show "extractCanvasImage e cfg i d m md t0 fs = (Inr None, fs)"
    by (simp add: extractCanvasImage_def)
next
  assume "\<forall>u. u < startTime_of e cfg t0 + maxWaitMs_of cfg \<longrightarrow>
            \<not> hasResponse (dom e u) \<and> dom e u \<noteq> PageGone"
  then show "\<exists>t. poll e (maxWaitMs_of cfg) (startTime_of e cfg t0) 0 (startTime_of e cfg t0)
                 = Inr (False, t)"
    by (rule poll_times_out)
qed

lemma silent_poll:
  "lat e = (\<lambda>t. 0) \<Longrightarrow> \<forall>t < 3250. dom e t = NoElement \<Longrightarrow>
     poll e 2000 1250 0 1250 = Inr (False, 4350)"
  by (simp add: poll.simps [of e 2000] after_backoff_def backoff_def wait_def hasResponse_def)

theorem timeout_after_max_wait_witness:
  "extract_body (sample_env\<lparr>dom := (\<lambda>t. NoElement)\<rparr>) (sample_cfg\<lparr>maxRenderWaitMs := Some 2000\<rparr>)
     ''img 1'' ''out'' Thumbnail None 0 Map.empty =
     (Inl (CanvasTimeoutError ''img 1'' 3100 2000 None), Map.empty)
   \<and> extract_body
       (sample_env\<lparr>dom := (\<lambda>t. if t < 4000 then NoElement else Element None (Some ''late''))\<rparr>)
       (sample_cfg\<lparr>maxRenderWaitMs := Some 2000\<rparr>) ''img 1'' ''out'' Thumbnail None 0 Map.empty =
     (Inl (CanvasTimeoutError ''img 1'' 3100 2000 (Some ''late'')), Map.empty)
   \<and> (\<exists>t. poll (sample_env\<lparr>dom := (\<lambda>t. NoElement)\<rparr>) 2000 1250 0 1250 = Inr (False, t))"
proof -
  let ?c = "sample_cfg\<lparr>maxRenderWaitMs := Some 2000\<rparr>"
  let ?e = "sample_env\<lparr>dom := (\<lambda>t. NoElement)\<rparr>"
  let ?f = "sample_env\<lparr>dom := (\<lambda>t. if t < 4000 then NoElement else Element None (Some ''late''))\<rparr>"
  have c: "maxWaitMs_of ?c = 2000"
    by (simp add: maxWaitMs_of_def or_else_def)
  have s: "\<And>e. lat e = (\<lambda>t. 0) \<Longrightarrow> startTime_of e ?c 0 = 1250"
    by (simp add: startTime_of_def wait_def sample_cfg_def or_else_def)
  have e: "lat ?e = (\<lambda>t. 0)" "front_ok ?e" "dom ?e = (\<lambda>t. NoElement)"
    by (simp_all add: sample_env_fields)
  have f: "lat ?f = (\<lambda>t. 0)" "front_ok ?f"
    "dom ?f = (\<lambda>t. if t < 4000 then NoElement else Element None (Some ''late''))"
    by (simp_all add: sample_env_fields)
  have pe: "poll ?e 2000 1250 0 1250 = Inr (False, 4350)"
    using e by (simp add: silent_poll)
  have pf: "poll ?f 2000 1250 0 1250 = Inr (False, 4350)"
    using f by (simp add: silent_poll)
  show ?thesis
    using e f pe pf
      timeout_after_max_wait [of ?e ?c 0 4350 "''img 1''" "''out''" Thumbnail None Map.empty]
      timeout_after_max_wait [of ?f ?c 0 4350 "''img 1''" "''out''" Thumbnail None Map.empty]
    by (simp add: c s truthy_def attr_error_def hasResponse_def)
qed


lemma validate_small:
  "fs1 path = Some b \<Longrightarrow> length b < or_else (minValidFileSize cfg) 51200 \<Longrightarrow>
     validate_and_embed e cfg i path md S t fs1 =
       (Inl (CanvasExtensionError i (size_message (length b) (or_else (minValidFileSize cfg) 51200))
               (t - S)), fs1(path := None))"
  by (simp add: validate_and_embed_def)

lemma validate_low:
  "fs1 path = Some b \<Longrightarrow> \<not> length b < or_else (minValidFileSize cfg) 51200 \<Longrightarrow>
   image_dims e b = Some (w, h) \<Longrightarrow>
   or_else w 0 < or_else (minValidDimensions cfg) 500 \<or> or_else h 0 < or_else (minValidDimensions cfg) 500 \<Longrightarrow>
     validate_and_embed e cfg i path md S t fs1 =
       (Inl (CanvasExtensionError i
               (dimensions_message (or_else w 0) (or_else h 0) (or_else (minValidDimensions cfg) 500))
               (t + lat e t - S)), fs1(path := None))"
  by (simp add: validate_and_embed_def Let_def)

lemma validate_passed:
  "fs1 path = Some b \<Longrightarrow> \<not> length b < or_else (minValidFileSize cfg) 51200 \<Longrightarrow>
   image_dims e b = Some (w, h) \<Longrightarrow>
   \<not> or_else w 0 < or_else (minValidDimensions cfg) 500 \<Longrightarrow>
   \<not> or_else h 0 < or_else (minValidDimensions cfg) 500 \<Longrightarrow>
     validate_and_embed e cfg i path (Some md) S t fs1 =
       (case embedExifMetadata e path md fs1 of
          (Inl x, fs') \<Rightarrow> (Inl x, fs')
        | (Inr _, fs') \<Rightarrow> (Inr path, fs'))"
  by (simp add: validate_and_embed_def Let_def)

lemma embed_resolves:
  "fs path = Some b \<Longrightarrow>
   exiftool e (exif_args path md) b = SpawnError \<or> exiftool e (exif_args path md) b = Closed code b' \<Longrightarrow>
     fst (embedExifMetadata e path md fs) = Inr () \<and> snd (embedExifMetadata e path md fs) path \<noteq> None"
  by (auto simp: embedExifMetadata_def)

text \<open>
  C5. Once the JPG is written, with contents \<open>b\<close>: if it has fewer bytes than the
  minimum, or else if the width or the height read from it (0 when undefined) is below
  the minimal dimension, the body throws an extension error whose message names the
  threshold that failed and the measured size or dimensions, the method returns
  \<^verbatim>\<open>null\<close>, and the JPG is not on disk when it returns.
\<close>

theorem undersized_output_deleted:
  "front_ok e
   \<and> poll e (maxWaitMs_of cfg) (startTime_of e cfg t0) 0 (startTime_of e cfg t0) = Inr (True, t4)
   \<and> read_signal e i (startTime_of e cfg t0) t4 = Inr (url, t5)
   \<and> save_and_convert e cfg i d m url t5 fs = (Inr t6, fs1)
   \<and> fs1 (jpgPath d i m) = Some b
   \<longrightarrow>
     (length b < or_else (minValidFileSize cfg) 51200 \<longrightarrow>
        fst (extract_body e cfg i d m md t0 fs) =
          Inl (CanvasExtensionError i
                 (size_message (length b) (or_else (minValidFileSize cfg) 51200))
                 (t6 - startTime_of e cfg t0))
        \<and> fst (extractCanvasImage e cfg i d m md t0 fs) = Inr None
        \<and> snd (extractCanvasImage e cfg i d m md t0 fs) (jpgPath d i m) = None)
     \<and> (\<not> length b < or_else (minValidFileSize cfg) 51200 \<and> image_dims e b = Some (w, h)
         \<and> (or_else w 0 < or_else (minValidDimensions cfg) 500
             \<or> or_else h 0 < or_else (minValidDimensions cfg) 500) \<longrightarrow>
        fst (extract_body e cfg i d m md t0 fs) =
          Inl (CanvasExtensionError i
                 (dimensions_message (or_else w 0) (or_else h 0) (or_else (minValidDimensions cfg) 500))
                 (t6 + lat e t6 - startTime_of e cfg t0))
        \<and> fst (extractCanvasImage e cfg i d m md t0 fs) = Inr None
        \<and> snd (extractCanvasImage e cfg i d m md t0 fs) (jpgPath d i m) = None)"
proof (intro impI)
  assume a: "front_ok e
   \<and> poll e (maxWaitMs_of cfg) (startTime_of e cfg t0) 0 (startTime_of e cfg t0) = Inr (True, t4)
   \<and> read_signal e i (startTime_of e cfg t0) t4 = Inr (url, t5)
   \<and> save_and_convert e cfg i d m url t5 fs = (Inr t6, fs1)
   \<and> fs1 (jpgPath d i m) = Some b"
  then have body: "extract_body e cfg i d m md t0 fs =
      validate_and_embed e cfg i (jpgPath d i m) md (startTime_of e cfg t0) t6 fs1"
    by (simp add: body_stages)
  from a have jpg: "fs1 (jpgPath d i m) = Some b"
    by simp
  show "(length b < or_else (minValidFileSize cfg) 51200 \<longrightarrow>
        fst (extract_body e cfg i d m md t0 fs) =
          Inl (CanvasExtensionError i
                 (size_message (length b) (or_else (minValidFileSize cfg) 51200))
                 (t6 - startTime_of e cfg t0))
        \<and> fst (extractCanvasImage e cfg i d m md t0 fs) = Inr None
        \<and> snd (extractCanvasImage e cfg i d m md t0 fs) (jpgPath d i m) = None)
     \<and> (\<not> length b < or_else (minValidFileSize cfg) 51200 \<and> image_dims e b = Some (w, h)
         \<and> (or_else w 0 < or_else (minValidDimensions cfg) 500
             \<or> or_else h 0 < or_else (minValidDimensions cfg) 500) \<longrightarrow>
        fst (extract_body e cfg i d m md t0 fs) =
          Inl (CanvasExtensionError i
                 (dimensions_message (or_else w 0) (or_else h 0) (or_else (minValidDimensions cfg) 500))
                 (t6 + lat e t6 - startTime_of e cfg t0))
        \<and> fst (extractCanvasImage e cfg i d m md t0 fs) = Inr None
        \<and> snd (extractCanvasImage e cfg i d m md t0 fs) (jpgPath d i m) = None)"
  proof (intro conjI impI)
    assume small: "length b < or_else (minValidFileSize cfg) 51200"
    have r: "validate_and_embed e cfg i (jpgPath d i m) md (startTime_of e cfg t0) t6 fs1 =
       (Inl (CanvasExtensionError i (size_message (length b) (or_else (minValidFileSize cfg) 51200))
               (t6 - startTime_of e cfg t0)), fs1(jpgPath d i m := None))"
      using jpg small by (rule validate_small)
    show "fst (extract_body e cfg i d m md t0 fs) =
          Inl (CanvasExtensionError i
                 (size_message (length b) (or_else (minValidFileSize cfg) 51200))
                 (t6 - startTime_of e cfg t0))"
      by (simp add: body r)
    show "fst (extractCanvasImage e cfg i d m md t0 fs) = Inr None"
      by (simp add: extractCanvasImage_def body r)
    show "snd (extractCanvasImage e cfg i d m md t0 fs) (jpgPath d i m) = None"
      by (simp add: extractCanvasImage_def body r)
  next
    assume low: "\<not> length b < or_else (minValidFileSize cfg) 51200 \<and> image_dims e b = Some (w, h)
         \<and> (or_else w 0 < or_else (minValidDimensions cfg) 500
             \<or> or_else h 0 < or_else (minValidDimensions cfg) 500)"
    then have r: "validate_and_embed e cfg i (jpgPath d i m) md (startTime_of e cfg t0) t6 fs1 =
       (Inl (CanvasExtensionError i
               (dimensions_message (or_else w 0) (or_else h 0) (or_else (minValidDimensions cfg) 500))
               (t6 + lat e t6 - startTime_of e cfg t0)), fs1(jpgPath d i m := None))"
      using jpg by (simp add: validate_low)
    show "fst (extract_body e cfg i d m md t0 fs) =
          Inl (CanvasExtensionError i
                 (dimensions_message (or_else w 0) (or_else h 0) (or_else (minValidDimensions cfg) 500))
                 (t6 + lat e t6 - startTime_of e cfg t0))"
      by (simp add: body r)
    show "fst (extractCanvasImage e cfg i d m md t0 fs) = Inr None"
      by (simp add: extractCanvasImage_def body r)
    show "snd (extractCanvasImage e cfg i d m md t0 fs) (jpgPath d i m) = None"
      by (simp add: extractCanvasImage_def body r)
  qed
qed

lemma show_nat_samples:
  "show_nat 0 = ''0''" "show_nat 4 = ''4''" "show_nat 10 = ''10''" "show_nat 100 = ''100''"
  "show_nat 500 = ''500''"
  by (simp_all add: show_nat.simps digit_char_def)

theorem undersized_output_deleted_witness:
  "fst (extract_body sample_env (sample_cfg\<lparr>minValidFileSize := Some 100\<rparr>) ''img 1'' ''out''
          Thumbnail None 0 Map.empty) =
     Inl (CanvasExtensionError ''img 1'' ''File validation failed: size 4 bytes is below minimum 100 bytes'' 0)
   \<and> snd (extractCanvasImage sample_env (sample_cfg\<lparr>minValidFileSize := Some 100\<rparr>) ''img 1'' ''out''
          Thumbnail None 0 Map.empty) ''out/img-1_canvas_thumbnail.jpg'' = None
   \<and> fst (extract_body (sample_env\<lparr>image_dims := (\<lambda>b. Some (Some 10, None))\<rparr>) sample_cfg ''img 1'' ''out''
          Thumbnail None 0 Map.empty) =
     Inl (CanvasExtensionError ''img 1''
            ''File validation failed: dimensions 10x0 are below minimum 500px'' 0)
   \<and> snd (extractCanvasImage (sample_env\<lparr>image_dims := (\<lambda>b. Some (Some 10, None))\<rparr>) sample_cfg ''img 1''
          ''out'' Thumbnail None 0 Map.empty) ''out/img-1_canvas_thumbnail.jpg'' = None"
proof -
  let ?c = "sample_cfg\<lparr>minValidFileSize := Some 100\<rparr>"
  let ?e = "sample_env\<lparr>image_dims := (\<lambda>b. Some (Some 10, None))\<rparr>"
  let ?url = "''data:image/png;base64,QUJD''"
  let ?fs1 = "[''out/img-1_canvas_thumbnail.jpg'' \<mapsto> ''QUJD'']"
  have c: "maxWaitMs_of ?c = 150" "startTime_of sample_env ?c 0 = 1250"
    "or_else (minValidFileSize ?c) 51200 = 100" "jpgQuality ?c Thumbnail = 80"
    by (simp_all add: maxWaitMs_of_def startTime_of_def wait_def jpgQuality_def sample_cfg_def
        or_else_def sample_env_fields)
  have save_c: "save_and_convert sample_env ?c ''img 1'' ''out'' Thumbnail ?url 1250 Map.empty =
      (Inr 1250, ?fs1)"
    by (simp add: save_and_convert_def sample_names c Let_def sample_env_fields)
  have e: "lat ?e = (\<lambda>t. 0)" "front_ok ?e" "dom ?e = (\<lambda>t. Element (Some ?url) None)"
    "write_ok ?e = (\<lambda>p. True)" "b64decode ?e = (\<lambda>s. s)" "transcode ?e = (\<lambda>b q. Some b)"
    "image_dims ?e = (\<lambda>b. Some (Some 10, None))"
    by (simp_all add: sample_env_fields)
  have four: "Suc (Suc (Suc (Suc 0))) = 4"
    by simp
  have dims: "or_else (Some 10) 0 = 10" "or_else None 0 = 0"
    by (simp_all add: or_else_def)
  have one: "fst (extract_body sample_env ?c ''img 1'' ''out'' Thumbnail None 0 Map.empty) =
       Inl (CanvasExtensionError ''img 1'' (size_message 4 100) 0)
     \<and> snd (extractCanvasImage sample_env ?c ''img 1'' ''out'' Thumbnail None 0 Map.empty)
         ''out/img-1_canvas_thumbnail.jpg'' = None"
    using undersized_output_deleted [where e = sample_env and cfg = ?c and ?t0.0 = 0 and ?t4.0 = 1250
        and i = "''img 1''" and url = ?url and ?t5.0 = 1250 and d = "''out''" and m = Thumbnail
        and fs = Map.empty and ?t6.0 = 1250 and ?fs1.0 = ?fs1 and b = "''QUJD''" and md = None]
      sample_poll [of sample_env "Some ?url" None] sample_read [of sample_env "''img 1''"] save_c
    by (simp add: c sample_env_fields sample_names or_else_def four)
  have two: "fst (extract_body ?e sample_cfg ''img 1'' ''out'' Thumbnail None 0 Map.empty) =
       Inl (CanvasExtensionError ''img 1'' (dimensions_message 10 0 500) 0)
     \<and> snd (extractCanvasImage ?e sample_cfg ''img 1'' ''out'' Thumbnail None 0 Map.empty)
         ''out/img-1_canvas_thumbnail.jpg'' = None"
    using undersized_output_deleted [where e = ?e and cfg = sample_cfg and ?t0.0 = 0 and ?t4.0 = 1250
        and i = "''img 1''" and url = ?url and ?t5.0 = 1250 and d = "''out''" and m = Thumbnail
        and fs = Map.empty and ?t6.0 = 1250 and ?fs1.0 = ?fs1 and b = "''QUJD''" and md = None
        and w = "Some 10" and h = None]
      sample_poll [of ?e "Some ?url" None] sample_read [of ?e "''img 1''"]
      sample_save [of ?e "''QUJD''"]
    by (simp add: e sample_clock sample_max_wait sample_thresholds sample_names dims four)
  from one two show ?thesis
    by (simp add: size_message_def dimensions_message_def show_nat_samples)
qed


text \<open>
  The two handlers. When the metadata tool emits \<^verbatim>\<open>error\<close> (it could not be started)
  or \<^verbatim>\<open>close\<close> with any exit code, \<^verbatim>\<open>embedExifMetadata\<close> resolves and the file is
  still there; an extraction that has reached the metadata step with a JPG that passed
  both validations then returns the path of the JPG, and the JPG is on disk.
\<close>

lemma metadata_handlers_resolve:
  "(fs1 path = Some b
    \<and> (exiftool e (exif_args path md) b = SpawnError
        \<or> exiftool e (exif_args path md) b = Closed code b')
    \<longrightarrow> fst (embedExifMetadata e path md fs1) = Inr ()
        \<and> snd (embedExifMetadata e path md fs1) path \<noteq> None)
   \<and> (front_ok e
    \<and> poll e (maxWaitMs_of cfg) (startTime_of e cfg t0) 0 (startTime_of e cfg t0) = Inr (True, t4)
    \<and> read_signal e i (startTime_of e cfg t0) t4 = Inr (url, t5)
    \<and> save_and_convert e cfg i d m url t5 fs = (Inr t6, fs1)
    \<and> fs1 (jpgPath d i m) = Some b
    \<and> \<not> length b < or_else (minValidFileSize cfg) 51200
    \<and> image_dims e b = Some (w, h)
    \<and> \<not> or_else w 0 < or_else (minValidDimensions cfg) 500
    \<and> \<not> or_else h 0 < or_else (minValidDimensions cfg) 500
    \<and> (exiftool e (exif_args (jpgPath d i m) md) b = SpawnError
        \<or> exiftool e (exif_args (jpgPath d i m) md) b = Closed code b')
    \<longrightarrow> fst (extractCanvasImage e cfg i d m (Some md) t0 fs) = Inr (Some (jpgPath d i m))
        \<and> snd (extractCanvasImage e cfg i d m (Some md) t0 fs) (jpgPath d i m) \<noteq> None)"
proof (intro conjI impI)
  assume a: "fs1 path = Some b
    \<and> (exiftool e (exif_args path md) b = SpawnError
        \<or> exiftool e (exif_args path md) b = Closed code b')"
  then show "fst (embedExifMetadata e path md fs1) = Inr ()"
    using embed_resolves [of fs1 path b e md code b'] by blast
  from a show "snd (embedExifMetadata e path md fs1) path \<noteq> None"
    using embed_resolves [of fs1 path b e md code b'] by blast
next
  assume a: "front_ok e
    \<and> poll e (maxWaitMs_of cfg) (startTime_of e cfg t0) 0 (startTime_of e cfg t0) = Inr (True, t4)
    \<and> read_signal e i (startTime_of e cfg t0) t4 = Inr (url, t5)
    \<and> save_and_convert e cfg i d m url t5 fs = (Inr t6, fs1)
    \<and> fs1 (jpgPath d i m) = Some b
    \<and> \<not> length b < or_else (minValidFileSize cfg) 51200
    \<and> image_dims e b = Some (w, h)
    \<and> \<not> or_else w 0 < or_else (minValidDimensions cfg) 500
    \<and> \<not> or_else h 0 < or_else (minValidDimensions cfg) 500
    \<and> (exiftool e (exif_args (jpgPath d i m) md) b = SpawnError
        \<or> exiftool e (exif_args (jpgPath d i m) md) b = Closed code b')"
  then have body: "extract_body e cfg i d m (Some md) t0 fs =
      validate_and_embed e cfg i (jpgPath d i m) (Some md) (startTime_of e cfg t0) t6 fs1"
    by (simp add: body_stages)
  from a have passed: "validate_and_embed e cfg i (jpgPath d i m) (Some md) (startTime_of e cfg t0) t6 fs1 =
       (case embedExifMetadata e (jpgPath d i m) md fs1 of
          (Inl x, fs') \<Rightarrow> (Inl x, fs')
        | (Inr _, fs') \<Rightarrow> (Inr (jpgPath d i m), fs'))"
    by (simp add: validate_passed)
  from a have resolved: "fst (embedExifMetadata e (jpgPath d i m) md fs1) = Inr ()
      \<and> snd (embedExifMetadata e (jpgPath d i m) md fs1) (jpgPath d i m) \<noteq> None"
    using embed_resolves [of fs1 "jpgPath d i m" b e md code b'] by blast
  obtain r fs' where emb: "embedExifMetadata e (jpgPath d i m) md fs1 = (r, fs')"
    by (cases "embedExifMetadata e (jpgPath d i m) md fs1")
  with resolved have "r = Inr ()" "fs' (jpgPath d i m) \<noteq> None"
    by simp_all
  with emb body passed
  show "fst (extractCanvasImage e cfg i d m (Some md) t0 fs) = Inr (Some (jpgPath d i m))"
    and "snd (extractCanvasImage e cfg i d m (Some md) t0 fs) (jpgPath d i m) \<noteq> None"
    by (simp_all add: extractCanvasImage_def)
qed

lemma metadata_handlers_resolve_example:
  "fst (extractCanvasImage sample_env sample_cfg ''img 1'' ''out'' Thumbnail (Some (only_tags ''a, b''))
          0 Map.empty) = Inr (Some ''out/img-1_canvas_thumbnail.jpg'')
   \<and> snd (extractCanvasImage sample_env sample_cfg ''img 1'' ''out'' Thumbnail (Some (only_tags ''a, b''))
          0 Map.empty) ''out/img-1_canvas_thumbnail.jpg'' \<noteq> None
   \<and> fst (embedExifMetadata (sample_env\<lparr>exiftool := (\<lambda>args b. SpawnError)\<rparr>) ''o.jpg''
          (only_tags ''a, b'') [''o.jpg'' \<mapsto> ''QUJD'']) = Inr ()"
proof -
  let ?url = "''data:image/png;base64,QUJD''"
  let ?fs1 = "[''out/img-1_canvas_thumbnail.jpg'' \<mapsto> ''QUJD'']"
  let ?f = "sample_env\<lparr>exiftool := (\<lambda>args b. SpawnError)\<rparr>"
  have four: "Suc (Suc (Suc (Suc 0))) = 4"
    by simp
  have dims: "or_else (Some 600) 0 = 600"
    by (simp add: or_else_def)
  have f: "exiftool ?f = (\<lambda>args b. SpawnError)"
    by simp
  show ?thesis
    using metadata_handlers_resolve [where e = sample_env and cfg = sample_cfg and ?t0.0 = 0
        and ?t4.0 = 1250 and i = "''img 1''" and url = ?url and ?t5.0 = 1250 and d = "''out''"
        and m = Thumbnail and fs = Map.empty and ?t6.0 = 1250 and ?fs1.0 = ?fs1 and b = "''QUJD''"
        and md = "only_tags ''a, b''" and w = "Some 600" and h = "Some 600" and code = "Some 1"
        and b' = "''QUJD''" and path = "''out/img-1_canvas_thumbnail.jpg''"]
      metadata_handlers_resolve [where e = ?f and ?fs1.0 = "[''o.jpg'' \<mapsto> ''QUJD'']"
        and path = "''o.jpg''" and b = "''QUJD''" and md = "only_tags ''a, b''"]
      sample_poll [of sample_env "Some ?url" None] sample_read [of sample_env "''img 1''"]
      sample_save [of sample_env "''QUJD''"]
    by (simp add: sample_env_fields f sample_clock sample_max_wait sample_thresholds sample_names dims four)
qed

lemma embed_rejects:
  "fs1 path = Some b \<Longrightarrow> exiftool e (exif_args path md) b = SpawnThrew \<Longrightarrow>
     embedExifMetadata e path md fs1 = (Inl (ExternalError ''spawn''), fs1)"
  by (simp add: embedExifMetadata_def)

lemma spawn_throw_fails_extraction:
  assumes "front_ok e"
    and "poll e (maxWaitMs_of cfg) (startTime_of e cfg t0) 0 (startTime_of e cfg t0) = Inr (True, t4)"
    and "read_signal e i (startTime_of e cfg t0) t4 = Inr (url, t5)"
    and "save_and_convert e cfg i d m url t5 fs = (Inr t6, fs1)"
    and "fs1 (jpgPath d i m) = Some b"
    and "\<not> length b < or_else (minValidFileSize cfg) 51200"
    and "image_dims e b = Some (w, h)"
    and "\<not> or_else w 0 < or_else (minValidDimensions cfg) 500"
    and "\<not> or_else h 0 < or_else (minValidDimensions cfg) 500"
    and "exiftool e (exif_args (jpgPath d i m) md) b = SpawnThrew"
  shows "extractCanvasImage e cfg i d m (Some md) t0 fs = (Inr None, fs1)"
proof -
  have "extract_body e cfg i d m (Some md) t0 fs =
      validate_and_embed e cfg i (jpgPath d i m) (Some md) (startTime_of e cfg t0) t6 fs1"
    using assms(1-4) by (simp add: body_stages)
  also have "\<dots> = (case embedExifMetadata e (jpgPath d i m) md fs1 of
          (Inl x, fs') \<Rightarrow> (Inl x, fs')
        | (Inr _, fs') \<Rightarrow> (Inr (jpgPath d i m), fs'))"
    using assms(5-9) by (simp add: validate_passed)
  also have "\<dots> = (Inl (ExternalError ''spawn''), fs1)"
    using assms(5,10) by (simp add: embed_rejects)
  finally show ?thesis
    by (simp add: extractCanvasImage_def)
qed

text \<open>
  C9 fails on the code. \<^verbatim>\<open>spawn\<close> is called inside the executor of the promise that
  \<^verbatim>\<open>embedExifMetadata\<close> returns, and nothing there catches what it throws. When
  \<^verbatim>\<open>spawn\<close> itself throws (as it does for an argument that holds a NUL character), the
  promise is rejected, the \<^verbatim>\<open>await\<close> in \<^verbatim>\<open>extractCanvasImage\<close> throws, and the method
  returns \<^verbatim>\<open>null\<close> although the validated JPG is on disk. On the same page, with the same
  files, a tool that is started and exits with code 1 lets the method return the path.
\<close>

theorem spawn_throw_loses_validated_image:
  "extractCanvasImage (sample_env\<lparr>exiftool := (\<lambda>args b. SpawnThrew)\<rparr>) sample_cfg ''img 1'' ''out''
     Thumbnail (Some (only_tags ''a, b'')) 0 Map.empty =
     (Inr None, [''out/img-1_canvas_thumbnail.jpg'' \<mapsto> ''QUJD''])
   \<and> fst (extractCanvasImage sample_env sample_cfg ''img 1'' ''out'' Thumbnail (Some (only_tags ''a, b''))
          0 Map.empty) = Inr (Some ''out/img-1_canvas_thumbnail.jpg'')"
proof -
  let ?url = "''data:image/png;base64,QUJD''"
  let ?fs1 = "[''out/img-1_canvas_thumbnail.jpg'' \<mapsto> ''QUJD'']"
  let ?f = "sample_env\<lparr>exiftool := (\<lambda>args b. SpawnThrew)\<rparr>"
  have four: "Suc (Suc (Suc (Suc 0))) = 4"
    by simp
  have dims: "or_else (Some 600) 0 = 600"
    by (simp add: or_else_def)
  have f: "lat ?f = (\<lambda>t. 0)" "front_ok ?f" "dom ?f = (\<lambda>t. Element (Some ?url) None)"
    "write_ok ?f = (\<lambda>p. True)" "b64decode ?f = (\<lambda>s. s)" "transcode ?f = (\<lambda>b q. Some b)"
    "image_dims ?f = (\<lambda>b. Some (Some 600, Some 600))" "exiftool ?f = (\<lambda>args b. SpawnThrew)"
    by (simp_all add: sample_env_fields)
  have thrown: "extractCanvasImage ?f sample_cfg ''img 1'' ''out'' Thumbnail (Some (only_tags ''a, b''))
      0 Map.empty = (Inr None, ?fs1)"
    using spawn_throw_fails_extraction [where e = ?f and cfg = sample_cfg and ?t0.0 = 0
        and ?t4.0 = 1250 and i = "''img 1''" and url = ?url and ?t5.0 = 1250 and d = "''out''"
        and m = Thumbnail and fs = Map.empty and ?t6.0 = 1250 and ?fs1.0 = ?fs1 and b = "''QUJD''"
        and md = "only_tags ''a, b''" and w = "Some 600" and h = "Some 600"]
      sample_poll [of ?f "Some ?url" None] sample_read [of ?f "''img 1''"]
      sample_save [of ?f "''QUJD''"]
    by (simp add: f sample_clock sample_max_wait sample_thresholds sample_names dims four)
  from thrown metadata_handlers_resolve_example show ?thesis
    by simp
qed

lemma payload_split:
  "startsWith url data_prefix \<Longrightarrow>
     \<exists>p rest. split_on CHR '','' url = ''data:image/png;base64'' # p # rest
       \<and> hd (tl (split_on CHR '','' url)) = p"
  using payload_present [of url] by auto

lemma save_failed_transcode:
  assumes "startsWith url data_prefix" and "write_ok e (pngPath d i m)"
    and "transcode e (b64decode e (hd (tl (split_on CHR '','' url)))) (jpgQuality cfg m) = None"
  shows "save_and_convert e cfg i d m url t fs =
       (Inl (ExternalError ''sharp''), fs(pngPath d i m \<mapsto> b64decode e (hd (tl (split_on CHR '','' url)))))"
proof -
  from assms(1) obtain p rest where
    sp: "split_on CHR '','' url = ''data:image/png;base64'' # p # rest"
    and p: "hd (tl (split_on CHR '','' url)) = p"
    using payload_split by blast
  from assms(3) have "transcode e (b64decode e p) (jpgQuality cfg m) = None"
    by (simp only: p)
  with assms(2) show ?thesis
    by (simp add: save_and_convert_def Let_def sp)
qed

lemma save_transcoded:
  assumes "startsWith url data_prefix" and "write_ok e (pngPath d i m)"
    and "transcode e (b64decode e (hd (tl (split_on CHR '','' url)))) (jpgQuality cfg m) = Some out"
  shows "\<exists>fs1. save_and_convert e cfg i d m url t fs = (Inr (t + lat e t), fs1)"
proof -
  from assms(1) obtain p rest where
    sp: "split_on CHR '','' url = ''data:image/png;base64'' # p # rest"
    and p: "hd (tl (split_on CHR '','' url)) = p"
    using payload_split by blast
  from assms(3) have "transcode e (b64decode e p) (jpgQuality cfg m) = Some out"
    by (simp only: p)
  with assms(2) show ?thesis
    by (simp add: save_and_convert_def Let_def sp)
qed

text \<open>
  C10. When the signal has been read and the PNG has been written, and the transcoding
  step throws, \<^verbatim>\<open>extractCanvasImage\<close> returns \<^verbatim>\<open>null\<close> and leaves the files as they
  were except for the PNG, which holds the decoded payload. When the transcoding step
  succeeds, the PNG is not on disk when the method returns, whatever happens afterwards.
\<close>

theorem failed_transcode_keeps_png:
  "front_ok e
   \<and> poll e (maxWaitMs_of cfg) (startTime_of e cfg t0) 0 (startTime_of e cfg t0) = Inr (True, t4)
   \<and> read_signal e i (startTime_of e cfg t0) t4 = Inr (url, t5)
   \<and> write_ok e (pngPath d i m)
   \<longrightarrow>
     (transcode e (b64decode e (hd (tl (split_on CHR '','' url)))) (jpgQuality cfg m) = None \<longrightarrow>
        extractCanvasImage e cfg i d m md t0 fs =
          (Inr None, fs(pngPath d i m \<mapsto> b64decode e (hd (tl (split_on CHR '','' url))))))
     \<and> (transcode e (b64decode e (hd (tl (split_on CHR '','' url)))) (jpgQuality cfg m) = Some out \<longrightarrow>
        snd (extractCanvasImage e cfg i d m md t0 fs) (pngPath d i m) = None)"
proof (intro impI conjI)
  assume a: "front_ok e
   \<and> poll e (maxWaitMs_of cfg) (startTime_of e cfg t0) 0 (startTime_of e cfg t0) = Inr (True, t4)
   \<and> read_signal e i (startTime_of e cfg t0) t4 = Inr (url, t5)
   \<and> write_ok e (pngPath d i m)"
  then have url: "startsWith url data_prefix"
    using read_signal_url by blast
  {
    assume "transcode e (b64decode e (hd (tl (split_on CHR '','' url)))) (jpgQuality cfg m) = None"
    with a url have "save_and_convert e cfg i d m url t5 fs =
       (Inl (ExternalError ''sharp''), fs(pngPath d i m \<mapsto> b64decode e (hd (tl (split_on CHR '','' url)))))"
      by (simp add: save_failed_transcode)
    with a show "extractCanvasImage e cfg i d m md t0 fs =
          (Inr None, fs(pngPath d i m \<mapsto> b64decode e (hd (tl (split_on CHR '','' url)))))"
      by (simp add: extractCanvasImage_def extract_body_def)
  }
  {
    assume "transcode e (b64decode e (hd (tl (split_on CHR '','' url)))) (jpgQuality cfg m) = Some out"
    with a url obtain fs1 where s: "save_and_convert e cfg i d m url t5 fs = (Inr (t5 + lat e t5), fs1)"
      using save_transcoded [of url e d i m cfg out t5 fs] by blast
    then have gone: "fs1 (pngPath d i m) = None"
      using save_result by blast
    from a s have body: "extract_body e cfg i d m md t0 fs =
        validate_and_embed e cfg i (jpgPath d i m) md (startTime_of e cfg t0) (t5 + lat e t5) fs1"
      by (simp add: body_stages)
    obtain r fs' where v: "validate_and_embed e cfg i (jpgPath d i m) md (startTime_of e cfg t0)
        (t5 + lat e t5) fs1 = (r, fs')"
      by (cases "validate_and_embed e cfg i (jpgPath d i m) md (startTime_of e cfg t0) (t5 + lat e t5) fs1")
    then have "fs' (pngPath d i m) = fs1 (pngPath d i m)"
      using validate_frame png_not_jpg by blast
    with gone body v show "snd (extractCanvasImage e cfg i d m md t0 fs) (pngPath d i m) = None"
      by (simp add: extractCanvasImage_def split: sum.splits)
  }
qed

theorem failed_transcode_keeps_png_witness:
  "extractCanvasImage (sample_env\<lparr>transcode := (\<lambda>b q. None)\<rparr>) sample_cfg ''img 1'' ''out'' Thumbnail None
     0 Map.empty = (Inr None, [''out/img-1_canvas_thumbnail.png'' \<mapsto> ''QUJD''])
   \<and> snd (extractCanvasImage sample_env sample_cfg ''img 1'' ''out'' Thumbnail None 0 Map.empty)
       ''out/img-1_canvas_thumbnail.png'' = None"
proof -
  let ?url = "''data:image/png;base64,QUJD''"
  let ?f = "sample_env\<lparr>transcode := (\<lambda>b q. None)\<rparr>"
  have f: "lat ?f = (\<lambda>t. 0)" "front_ok ?f" "dom ?f = (\<lambda>t. Element (Some ?url) None)"
    "write_ok ?f = (\<lambda>p. True)" "b64decode ?f = (\<lambda>s. s)" "transcode ?f = (\<lambda>b q. None)"
    by (simp_all add: sample_env_fields)
  have payload: "hd (tl (split_on CHR '','' ?url)) = ''QUJD''"
    by simp
  show ?thesis
    using failed_transcode_keeps_png [where e = ?f and cfg = sample_cfg and ?t0.0 = 0 and ?t4.0 = 1250
        and i = "''img 1''" and url = ?url and ?t5.0 = 1250 and d = "''out''" and m = Thumbnail
        and fs = Map.empty and md = None]
      failed_transcode_keeps_png [where e = sample_env and cfg = sample_cfg and ?t0.0 = 0 and ?t4.0 = 1250
        and i = "''img 1''" and url = ?url and ?t5.0 = 1250 and d = "''out''" and m = Thumbnail
        and fs = Map.empty and md = None and out = "''QUJD''"]
      sample_poll [of ?f "Some ?url" None] sample_read [of ?f "''img 1''"]
      sample_poll [of sample_env "Some ?url" None] sample_read [of sample_env "''img 1''"]
    by (simp add: f sample_env_fields sample_clock sample_max_wait sample_names payload)
qed

section \<open>Properties of the scheduler\<close>

lemma findIndex_Some:
  "findIndex P xs = Some i \<Longrightarrow> i < length xs \<and> P (xs ! i) \<and> (\<forall>j < i. \<not> P (xs ! j))"
proof (induction xs arbitrary: i)
  case Nil
  then show ?case by simp
next
  case (Cons x xs)
  show ?case
  proof (cases "P x")
    case True
    with Cons.prems show ?thesis by simp
  next
    case False
    with Cons.prems obtain i' where i': "findIndex P xs = Some i'" "i = Suc i'"
      by (auto split: option.splits)
    with Cons.IH [of i'] False show ?thesis
      by (auto simp: nth_Cons split: nat.splits)
  qed
qed

lemma findIndex_None: "findIndex P xs = None \<Longrightarrow> \<forall>x \<in> set xs. \<not> P x"
  by (induction xs) (auto split: if_splits option.splits)

lemma map_update_same:
  "f v = f (ps ! j) \<Longrightarrow> map f (ps[j := v]) = map f ps"
proof (rule nth_equalityI)
  show "length (map f (ps[j := v])) = length (map f ps)"
    by simp
next
  fix i
  assume same: "f v = f (ps ! j)" and "i < length (map f (ps[j := v]))"
  then have i: "i < length ps"
    by simp
  show "map f (ps[j := v]) ! i = map f ps ! i"
  proof (cases "i = j")
    case True
    with i same show ?thesis by simp
  next
    case False
    with i show ?thesis by simp
  qed
qed

lemma map_page_stamp: "map page (ps[j := (ps ! j)\<lparr>lastActivated := t\<rparr>]) = map page ps"
  by (simp add: map_update_same)

lemma map_busy_stamp: "map busy (ps[j := (ps ! j)\<lparr>lastActivated := t\<rparr>]) = map busy ps"
  by (simp add: map_update_same)

lemma map_page_flag: "map page (ps[j := (ps ! j)\<lparr>busy := b\<rparr>]) = map page ps"
  by (simp add: map_update_same)

lemma rotate_calls:
  "snd (rotateActivePage now s) = [] \<or>
   (\<exists>j. currentActiveIndex (fst (rotateActivePage now s)) = Some j \<and> j < length (pages s)
        \<and> snd (rotateActivePage now s) = [MouseMove (page (pages s ! j))])"
  by (auto simp: rotateActivePage_def Let_def split: option.splits)

lemma rotate_frame:
  "map busy (pages (fst (rotateActivePage now s))) = map busy (pages s)
   \<and> map page (pages (fst (rotateActivePage now s))) = map page (pages s)
   \<and> activeTasks (fst (rotateActivePage now s)) = activeTasks s
   \<and> shuttingDown (fst (rotateActivePage now s)) = shuttingDown s
   \<and> rotationTimerId (fst (rotateActivePage now s)) = rotationTimerId s
   \<and> cleanupStarted (fst (rotateActivePage now s)) = cleanupStarted s"
  by (auto simp: rotateActivePage_def Let_def map_busy_stamp map_page_stamp split: option.splits)

lemma rotate_cursor:
  "\<not> shuttingDown s \<Longrightarrow> pages s \<noteq> [] \<Longrightarrow> currentActiveIndex s = Some c \<Longrightarrow>
     currentActiveIndex (fst (rotateActivePage now s)) = Some ((c + 1) mod length (pages s))
     \<and> lastActivated (pages (fst (rotateActivePage now s)) ! ((c + 1) mod length (pages s))) = now
     \<and> (\<forall>k < length (pages s). k \<noteq> (c + 1) mod length (pages s) \<longrightarrow>
           pages (fst (rotateActivePage now s)) ! k = pages s ! k)"
  by (auto simp: rotateActivePage_def Let_def)

lemma rotate_shutdown: "shuttingDown s \<Longrightarrow> rotateActivePage now s = (s, [])"
  by (simp add: rotateActivePage_def)

lemma calls_step:
  "\<exists>cs. calls (step ev w) = calls w @ cs \<and> (\<forall>p. BringToFront p \<in> set cs \<longrightarrow> ev = AcquireScan)"
proof (cases ev)
  case (Tick now)
  then show ?thesis
    using rotate_calls [of now "sched w"]
    by (auto simp: step_def split: prod.splits)
next
  case AcquireScan
  then show ?thesis
    by (auto simp: step_def split: prod.splits scan.splits)
next
  case (CleanupFinish c)
  then show ?thesis
    by (auto simp: step_def cleanup_finish_def split: prod.splits)
qed (auto simp: step_def split: prod.splits)

lemma calls_of_front: "BringToFront p \<in> set (calls_of ev w) \<Longrightarrow> ev = AcquireScan"
  using calls_step [of ev w] by (auto simp: calls_of_def)


text \<open>
  C6. A rotation tick never calls \<^verbatim>\<open>bringToFront\<close>: the only call it can make on a page
  is one mouse move on the page under the cursor. It leaves the busy flags, the page
  handles, the active tasks and the flags of the scheduler as they are; on a running,
  non-empty pool it moves the cursor to the next slot, cyclically, and stamps that slot
  and no other. Of all the pieces of a run of the pool, only the scan of \<^verbatim>\<open>acquirePage\<close>
  calls \<^verbatim>\<open>bringToFront\<close>. Once \<^verbatim>\<open>shuttingDown\<close> is set a tick changes nothing and calls
  nothing.
\<close>

theorem rotation_never_foregrounds:
  "BringToFront p \<notin> set (snd (rotateActivePage now s))
   \<and> (snd (rotateActivePage now s) = [] \<or>
       (\<exists>j. currentActiveIndex (fst (rotateActivePage now s)) = Some j \<and> j < length (pages s)
            \<and> snd (rotateActivePage now s) = [MouseMove (page (pages s ! j))]))
   \<and> map busy (pages (fst (rotateActivePage now s))) = map busy (pages s)
   \<and> map page (pages (fst (rotateActivePage now s))) = map page (pages s)
   \<and> activeTasks (fst (rotateActivePage now s)) = activeTasks s
   \<and> shuttingDown (fst (rotateActivePage now s)) = shuttingDown s
   \<and> (\<not> shuttingDown s \<and> pages s \<noteq> [] \<and> currentActiveIndex s = Some c \<longrightarrow>
        currentActiveIndex (fst (rotateActivePage now s)) = Some ((c + 1) mod length (pages s))
        \<and> lastActivated (pages (fst (rotateActivePage now s)) ! ((c + 1) mod length (pages s))) = now
        \<and> (\<forall>k < length (pages s). k \<noteq> (c + 1) mod length (pages s) \<longrightarrow>
              pages (fst (rotateActivePage now s)) ! k = pages s ! k))
   \<and> (BringToFront p \<in> set (calls_of ev w) \<longrightarrow> ev = AcquireScan)
   \<and> (shuttingDown s \<longrightarrow> rotateActivePage now s = (s, []))
   \<and> (shuttingDown (sched w) \<longrightarrow> step (Tick now) w = w \<and> calls_of (Tick now) w = [])"
proof (intro conjI)
  show "BringToFront p \<notin> set (snd (rotateActivePage now s))"
    using rotate_calls [of now s] by auto
  show "snd (rotateActivePage now s) = [] \<or>
       (\<exists>j. currentActiveIndex (fst (rotateActivePage now s)) = Some j \<and> j < length (pages s)
            \<and> snd (rotateActivePage now s) = [MouseMove (page (pages s ! j))])"
    by (rule rotate_calls)
  show "map busy (pages (fst (rotateActivePage now s))) = map busy (pages s)"
    and "map page (pages (fst (rotateActivePage now s))) = map page (pages s)"
    and "activeTasks (fst (rotateActivePage now s)) = activeTasks s"
    and "shuttingDown (fst (rotateActivePage now s)) = shuttingDown s"
    using rotate_frame [of now s] by simp_all
  show "\<not> shuttingDown s \<and> pages s \<noteq> [] \<and> currentActiveIndex s = Some c \<longrightarrow>
        currentActiveIndex (fst (rotateActivePage now s)) = Some ((c + 1) mod length (pages s))
        \<and> lastActivated (pages (fst (rotateActivePage now s)) ! ((c + 1) mod length (pages s))) = now
        \<and> (\<forall>k < length (pages s). k \<noteq> (c + 1) mod length (pages s) \<longrightarrow>
              pages (fst (rotateActivePage now s)) ! k = pages s ! k)"
    using rotate_cursor [of s c now] by blast
  show "BringToFront p \<in> set (calls_of ev w) \<longrightarrow> ev = AcquireScan"
    using calls_of_front by blast
  show "shuttingDown s \<longrightarrow> rotateActivePage now s = (s, [])"
    by (simp add: rotate_shutdown)
  show "shuttingDown (sched w) \<longrightarrow> step (Tick now) w = w \<and> calls_of (Tick now) w = []"
    by (simp add: step_def calls_of_def rotate_shutdown)
qed

lemma two_pages: "constructor [7, 8] 500 =
    \<lparr>pages = [\<lparr>page = 7, busy = False, lastActivated = 0\<rparr>, \<lparr>page = 8, busy = False, lastActivated = 0\<rparr>],
     activationIntervalMs = 500, rotationTimerId = False, currentActiveIndex = Some 0,
     activeTasks = {}, shuttingDown = False, cleanupStarted = False\<rparr>"
  by (simp add: constructor_def)

theorem rotation_never_foregrounds_witness:
  "rotateActivePage 40 (constructor [7, 8] 500) =
     ((constructor [7, 8] 500)
        \<lparr>pages := [\<lparr>page = 7, busy = False, lastActivated = 0\<rparr>,
                   \<lparr>page = 8, busy = False, lastActivated = 40\<rparr>],
         currentActiveIndex := Some 1\<rparr>, [MouseMove 8])
   \<and> currentActiveIndex (fst (rotateActivePage 40 (constructor [7, 8] 500))) = Some 1
   \<and> rotateActivePage 40 (cleanup_begin (constructor [7, 8] 500)) =
       (cleanup_begin (constructor [7, 8] 500), [])
   \<and> step (Tick 40) (run [StartRotation, CleanupBegin, StartRotation] (init [7, 8] 500)) =
       run [StartRotation, CleanupBegin, StartRotation] (init [7, 8] 500)
   \<and> calls_of AcquireScan (init [7, 8] 500) = [BringToFront 7]"
proof -
  have direct: "rotateActivePage 40 (constructor [7, 8] 500) =
     ((constructor [7, 8] 500)
        \<lparr>pages := [\<lparr>page = 7, busy = False, lastActivated = 0\<rparr>,
                   \<lparr>page = 8, busy = False, lastActivated = 40\<rparr>],
         currentActiveIndex := Some 1\<rparr>, [MouseMove 8])"
    by (simp add: two_pages rotateActivePage_def Let_def)
  have down: "shuttingDown (cleanup_begin (constructor [7, 8] 500))"
    by (simp add: cleanup_begin_def stopRotation_def)
  have down': "shuttingDown (sched (run [StartRotation, CleanupBegin, StartRotation] (init [7, 8] 500)))"
    by (simp add: step_def init_def cleanup_begin_def stopRotation_def startRotation_def)
  have front: "calls_of AcquireScan (init [7, 8] 500) = [BringToFront 7]"
    by (simp add: calls_of_def step_def init_def two_pages acquire_scan_def Let_def)
  have running: "\<not> shuttingDown (constructor [7, 8] 500) \<and> pages (constructor [7, 8] 500) \<noteq> []
      \<and> currentActiveIndex (constructor [7, 8] 500) = Some 0"
    by (simp add: two_pages)
  show ?thesis
    using direct down down' front running
      rotation_never_foregrounds [where p = 7 and ev = AcquireScan and w = "init [7, 8] 500"
        and now = 40 and s = "constructor [7, 8] 500" and c = 0]
      rotation_never_foregrounds [where s = "cleanup_begin (constructor [7, 8] 500)" and now = 40
        and w = "run [StartRotation, CleanupBegin, StartRotation] (init [7, 8] 500)"]
    by simp
qed


lemma init_inv: "pool_inv pgs (init pgs ms)"
  by (simp add: pool_inv_def holding_def init_def constructor_def comp_def)

lemma busy_stamp_nth:
  "busy (ps[j := (ps ! j)\<lparr>lastActivated := t\<rparr>] ! i) = busy (ps ! i)"
  by (cases "j < length ps"; cases "i = j") (simp_all add: list_update_beyond)

lemma inv_sched_frame:
  assumes "pool_inv pgs w"
    and "map page (pages s') = map page (pages (sched w))"
    and "map busy (pages s') = map busy (pages (sched w))"
    and "shuttingDown (sched w) \<Longrightarrow> shuttingDown s'"
  shows "pool_inv pgs (w\<lparr>sched := s', calls := cs\<rparr>)"
proof -
  have len: "length (pages s') = length (pages (sched w))"
    using assms(2) by (metis length_map)
  have b: "\<And>i. i < length (pages s') \<Longrightarrow> busy (pages s' ! i) = busy (pages (sched w) ! i)"
    using assms(3) len by (metis nth_map)
  have e: "pages s' = [] \<longleftrightarrow> pages (sched w) = []"
    using len by auto
  have inrange: "\<And>k. k < length (acqs w) \<Longrightarrow> pages (sched w) \<noteq> [] \<Longrightarrow>
      slot (acqs w ! k) < length (pages s')"
    using assms(1) len by (auto simp: pool_inv_def)
  show ?thesis
    using assms(1,2,4) e b inrange
    by (auto simp: pool_inv_def holding_def)
qed

lemma inv_tick: "pool_inv pgs w \<Longrightarrow> pool_inv pgs (step (Tick now) w)"
proof -
  assume inv: "pool_inv pgs w"
  obtain s' cs where r: "rotateActivePage now (sched w) = (s', cs)"
    by (cases "rotateActivePage now (sched w)")
  with rotate_frame [of now "sched w"] have
    "map page (pages s') = map page (pages (sched w))"
    "map busy (pages s') = map busy (pages (sched w))"
    "shuttingDown s' = shuttingDown (sched w)"
    by simp_all
  with inv have "pool_inv pgs (w\<lparr>sched := s', calls := calls w @ cs\<rparr>)"
    by (simp add: inv_sched_frame)
  with inv r show ?thesis
    by (simp add: step_def)
qed

lemma inv_rotation_switch:
  "pool_inv pgs w \<Longrightarrow> pool_inv pgs (step StartRotation w) \<and> pool_inv pgs (step StopRotation w)
     \<and> pool_inv pgs (step CleanupBegin w)"
  by (auto simp: step_def pool_inv_def holding_def startRotation_def stopRotation_def cleanup_begin_def)

lemma inv_cleanup_finish: "pool_inv pgs w \<Longrightarrow> pool_inv pgs (step (CleanupFinish c) w)"
  by (auto simp: step_def pool_inv_def holding_def cleanup_finish_def)

lemma inv_front_failed: "pool_inv pgs w \<Longrightarrow> pool_inv pgs (step (FrontFailed k) w)"
  by (auto simp: step_def pool_inv_def holding_def nth_list_update)


lemma scan_grant:
  "acquire_scan s = (AwaitFront i pg, s', cs) \<Longrightarrow>
     \<not> shuttingDown s \<and> i < length (pages s) \<and> \<not> busy (pages s ! i) \<and> pg = page (pages s ! i)
     \<and> s' = s\<lparr>pages := (pages s)[i := (pages s ! i)\<lparr>busy := True\<rparr>]\<rparr>
     \<and> cs = [BringToFront pg]"
  by (auto simp: acquire_scan_def Let_def split: if_splits option.splits dest: findIndex_Some)

lemma scan_no_grant:
  "acquire_scan s = (r, s', cs) \<Longrightarrow> r = ReturnNull \<or> r = Sleep \<Longrightarrow> s' = s \<and> cs = []"
  by (auto simp: acquire_scan_def Let_def split: if_splits option.splits)

lemma inv_scan: "pool_inv pgs w \<Longrightarrow> pool_inv pgs (step AcquireScan w)"
proof -
  assume inv: "pool_inv pgs w"
  obtain r s' cs where sc: "acquire_scan (sched w) = (r, s', cs)"
    by (cases "acquire_scan (sched w)")
  show ?thesis
  proof (cases r)
    case ReturnNull
    with sc scan_no_grant [OF sc] inv show ?thesis
      by (simp add: step_def pool_inv_def holding_def)
  next
    case Sleep
    with sc scan_no_grant [OF sc] inv show ?thesis
      by (simp add: step_def pool_inv_def holding_def)
  next
    case (AwaitFront i pg)
    let ?ps = "pages (sched w)"
    from sc AwaitFront scan_grant [of "sched w" i pg s' cs] have g:
      "\<not> shuttingDown (sched w)" "i < length ?ps" "\<not> busy (?ps ! i)" "pg = page (?ps ! i)"
      "s' = (sched w)\<lparr>pages := ?ps[i := (?ps ! i)\<lparr>busy := True\<rparr>]\<rparr>"
      by simp_all
    let ?w' = "w\<lparr>sched := s', calls := calls w @ cs,
                 acqs := acqs w @ [\<lparr>slot = i, handle = pg, status = AwaitingFront\<rparr>]\<rparr>"
    from sc AwaitFront have st: "step AcquireScan w = ?w'"
      by (simp add: step_def)
    from inv g have pg: "map page ?ps = pgs"
      by (auto simp: pool_inv_def)
    then have len: "length ?ps = length pgs"
      by (metis length_map)
    have old: "\<And>k. k < length (acqs w) \<Longrightarrow> holding ?w' k = holding w k
        \<and> acqs ?w' ! k = acqs w ! k"
      by (simp add: holding_def nth_append)
    have new: "\<And>k. holding ?w' k \<Longrightarrow> k < length (acqs w) \<or> k = length (acqs w)"
      by (auto simp: holding_def)
    have newslot: "acqs ?w' ! length (acqs w) = \<lparr>slot = i, handle = pg, status = AwaitingFront\<rparr>"
      by simp
    have busy': "\<And>j. j < length ?ps \<Longrightarrow> busy (?ps ! j) \<Longrightarrow> busy (pages s' ! j)"
      using g by (simp add: nth_list_update)
    have busy_i: "busy (pages s' ! i)"
      using g by simp
    have nonempty: "?ps \<noteq> []"
      using g by auto
    have free: "\<And>k. holding w k \<Longrightarrow> slot (acqs w ! k) \<noteq> i"
      using inv g nonempty by (auto simp: pool_inv_def)
    have inrange: "\<And>k. k < length (acqs w) \<Longrightarrow> slot (acqs w ! k) < length ?ps"
      using inv len by (simp add: pool_inv_def)
    have a: "map page (pages (sched ?w')) = pgs"
      using g pg by (simp add: map_page_flag)
    have b: "\<forall>k < length (acqs ?w'). slot (acqs ?w' ! k) < length pgs
            \<and> handle (acqs ?w' ! k) = pgs ! slot (acqs ?w' ! k)"
    proof (intro allI impI)
      fix k assume "k < length (acqs ?w')"
      then consider "k < length (acqs w)" | "k = length (acqs w)"
        by (auto simp: less_Suc_eq)
      then show "slot (acqs ?w' ! k) < length pgs \<and> handle (acqs ?w' ! k) = pgs ! slot (acqs ?w' ! k)"
      proof cases
        case 1
        with inv show ?thesis by (simp add: pool_inv_def nth_append)
      next
        case 2
        have "pgs ! i = page (?ps ! i)"
          using g(2) nth_map [of i ?ps page] by (simp only: pg)
        with 2 g(2,4) len show ?thesis by simp
      qed
    qed
    have c: "\<forall>k. holding ?w' k \<longrightarrow> busy (pages (sched ?w') ! slot (acqs ?w' ! k))"
    proof (intro allI impI)
      fix k assume h: "holding ?w' k"
      with new consider "k < length (acqs w)" | "k = length (acqs w)"
        by blast
      then show "busy (pages (sched ?w') ! slot (acqs ?w' ! k))"
      proof cases
        case 1
        with h old have "holding w k" by simp
        with inv nonempty have "busy (?ps ! slot (acqs w ! k))"
          by (simp add: pool_inv_def)
        with 1 inrange busy' show ?thesis
          by (simp add: nth_append)
      next
        case 2
        with busy_i show ?thesis by simp
      qed
    qed
    have d: "\<forall>j k. holding ?w' j \<longrightarrow> holding ?w' k \<longrightarrow>
        slot (acqs ?w' ! j) = slot (acqs ?w' ! k) \<longrightarrow> j = k"
    proof (intro allI impI)
      fix j k
      assume hj: "holding ?w' j" and hk: "holding ?w' k"
        and eq: "slot (acqs ?w' ! j) = slot (acqs ?w' ! k)"
      from new hj consider (oj) "j < length (acqs w)" | (nj) "j = length (acqs w)" by blast
      then show "j = k"
      proof cases
        case oj
        from new hk consider (ok) "k < length (acqs w)" | (nk) "k = length (acqs w)" by blast
        then show ?thesis
        proof cases
          case ok
          with oj hj hk eq old have "holding w j" "holding w k" "slot (acqs w ! j) = slot (acqs w ! k)"
            by (simp_all add: nth_append)
          with inv show ?thesis by (simp add: pool_inv_def)
        next
          case nk
          with oj hj old eq free [of j] show ?thesis by (simp add: nth_append)
        qed
      next
        case nj
        from new hk consider (ok) "k < length (acqs w)" | (nk) "k = length (acqs w)" by blast
        then show ?thesis
        proof cases
          case ok
          with nj hk old eq free [of k] show ?thesis by (simp add: nth_append)
        next
          case nk
          with nj show ?thesis by simp
        qed
      qed
    qed
    from a b c d have "pool_inv pgs ?w'"
      by (simp add: pool_inv_def)
    with st show ?thesis by simp
  qed
qed


lemma inv_front_done: "pool_inv pgs w \<Longrightarrow> pool_inv pgs (step (FrontDone k now) w)"
proof (cases "k < length (acqs w) \<and> status (acqs w ! k) = AwaitingFront")
  case False
  assume "pool_inv pgs w"
  with False show ?thesis by (auto simp: step_def)
next
  case True
  assume inv: "pool_inv pgs w"
  let ?ps = "pages (sched w)"
  let ?i = "slot (acqs w ! k)"
  let ?ps' = "if ?i < length ?ps then ?ps[?i := (?ps ! ?i)\<lparr>lastActivated := now\<rparr>] else ?ps"
  let ?w' = "w\<lparr>sched := (sched w)\<lparr>pages := ?ps', activeTasks := insert k (activeTasks (sched w))\<rparr>,
               acqs := (acqs w)[k := (acqs w ! k)\<lparr>status := Held\<rparr>]\<rparr>"
  from True have st: "step (FrontDone k now) w = ?w'"
    by (simp add: step_def acquire_resume_def)
  have pg: "map page ?ps' = map page ?ps"
    by (simp add: map_page_stamp)
  have bs: "\<And>j. busy (?ps' ! j) = busy (?ps ! j)"
    by (simp add: busy_stamp_nth)
  have e: "?ps' = [] \<longleftrightarrow> ?ps = []"
    by simp
  have h: "\<And>j. holding ?w' j = holding w j"
    using True by (auto simp: holding_def nth_list_update)
  have sl: "\<And>j. j < length (acqs w) \<Longrightarrow> slot (acqs ?w' ! j) = slot (acqs w ! j)
      \<and> handle (acqs ?w' ! j) = handle (acqs w ! j)"
    using True by (simp add: nth_list_update)
  have hl: "\<And>j. holding w j \<Longrightarrow> j < length (acqs w)"
    by (simp add: holding_def)
  have a: "map page (pages (sched ?w')) = pgs \<or> (pages (sched ?w') = [] \<and> shuttingDown (sched ?w'))"
    using inv pg e by (auto simp: pool_inv_def)
  have b: "\<forall>j < length (acqs ?w'). slot (acqs ?w' ! j) < length pgs
      \<and> handle (acqs ?w' ! j) = pgs ! slot (acqs ?w' ! j)"
    using inv sl by (simp add: pool_inv_def)
  have c: "\<forall>j. holding ?w' j \<longrightarrow> pages (sched ?w') \<noteq> [] \<longrightarrow>
      busy (pages (sched ?w') ! slot (acqs ?w' ! j))"
  proof (intro allI impI)
    fix j assume "holding ?w' j" and "pages (sched ?w') \<noteq> []"
    then have hj: "holding w j" and ne: "?ps \<noteq> []"
      using h e by simp_all
    with inv have "busy (?ps ! slot (acqs w ! j))"
      by (simp add: pool_inv_def)
    with hj hl [OF hj] sl [of j] bs [of "slot (acqs w ! j)"]
    show "busy (pages (sched ?w') ! slot (acqs ?w' ! j))"
      by simp
  qed
  have d: "\<forall>i j. holding ?w' i \<longrightarrow> holding ?w' j \<longrightarrow>
      slot (acqs ?w' ! i) = slot (acqs ?w' ! j) \<longrightarrow> i = j"
  proof (intro allI impI)
    fix i j
    assume "holding ?w' i" "holding ?w' j" "slot (acqs ?w' ! i) = slot (acqs ?w' ! j)"
    then have "holding w i" "holding w j" "slot (acqs w ! i) = slot (acqs w ! j)"
      using h hl sl by simp_all
    with inv show "i = j" by (simp add: pool_inv_def)
  qed
  from a b c d have "pool_inv pgs ?w'"
    unfolding pool_inv_def by blast
  with st show ?thesis by simp
qed

lemma in_flight_set: "set (in_flight w) = {k. holding w k} \<and> distinct (in_flight w)"
  by (auto simp: in_flight_def holding_def)

lemma inv_release:
  assumes inv: "pool_inv pgs w"
    and ok: "\<not> stale_release w k"
  shows "pool_inv pgs (step (Release k) w)"
proof (cases "k < length (acqs w) \<and> (status (acqs w ! k) = Held \<or> status (acqs w ! k) = Released)")
  case False
  then have "step (Release k) w = w"
    by (auto simp: step_def)
  with inv show ?thesis by simp
next
  case True
  let ?ps = "pages (sched w)"
  let ?i = "slot (acqs w ! k)"
  let ?ps' = "if ?i < length ?ps then ?ps[?i := (?ps ! ?i)\<lparr>busy := False\<rparr>] else ?ps"
  let ?w' = "w\<lparr>sched := (sched w)\<lparr>pages := ?ps', activeTasks := activeTasks (sched w) - {k}\<rparr>,
               acqs := (acqs w)[k := (acqs w ! k)\<lparr>status := Released\<rparr>]\<rparr>"
  from True have st: "step (Release k) w = ?w'"
    by (simp add: step_def release_def)
  have sep: "slot (acqs w ! j) \<noteq> ?i" if hj: "holding w j" and jk: "j \<noteq> k" for j
  proof (cases "status (acqs w ! k) = Held")
    case True
    with \<open>k < length (acqs w) \<and> (status (acqs w ! k) = Held \<or> status (acqs w ! k) = Released)\<close>
    have "holding w k"
      by (simp add: holding_def)
    with inv hj jk show ?thesis
      unfolding pool_inv_def by blast
  next
    case False
    with \<open>k < length (acqs w) \<and> (status (acqs w ! k) = Held \<or> status (acqs w ! k) = Released)\<close>
    have "k < length (acqs w)" "status (acqs w ! k) = Released"
      by simp_all
    with ok hj show ?thesis
      by (auto simp: stale_release_def in_flight_set)
  qed
  have pg: "map page ?ps' = map page ?ps"
    by (simp add: map_page_flag)
  have e: "?ps' = [] \<longleftrightarrow> ?ps = []"
    by simp
  have bs: "\<And>j. j \<noteq> ?i \<Longrightarrow> busy (?ps' ! j) = busy (?ps ! j)"
    by simp
  have h: "\<And>j. holding ?w' j \<longleftrightarrow> holding w j \<and> j \<noteq> k"
    using True by (auto simp: holding_def nth_list_update)
  have sl: "\<And>j. j < length (acqs w) \<Longrightarrow> slot (acqs ?w' ! j) = slot (acqs w ! j)
      \<and> handle (acqs ?w' ! j) = handle (acqs w ! j)"
    using True by (simp add: nth_list_update)
  have hl: "\<And>j. holding w j \<Longrightarrow> j < length (acqs w)"
    by (simp add: holding_def)
  have a: "map page (pages (sched ?w')) = pgs \<or> (pages (sched ?w') = [] \<and> shuttingDown (sched ?w'))"
    using inv pg e by (auto simp: pool_inv_def)
  have b: "\<forall>j < length (acqs ?w'). slot (acqs ?w' ! j) < length pgs
      \<and> handle (acqs ?w' ! j) = pgs ! slot (acqs ?w' ! j)"
    using inv sl by (simp add: pool_inv_def)
  have c: "\<forall>j. holding ?w' j \<longrightarrow> pages (sched ?w') \<noteq> [] \<longrightarrow>
      busy (pages (sched ?w') ! slot (acqs ?w' ! j))"
  proof (intro allI impI)
    fix j assume "holding ?w' j" and "pages (sched ?w') \<noteq> []"
    then have hj: "holding w j" and jk: "j \<noteq> k" and ne: "?ps \<noteq> []"
      using h e by simp_all
    with inv have bj: "busy (?ps ! slot (acqs w ! j))"
      by (simp add: pool_inv_def)
    from hj jk have "slot (acqs w ! j) \<noteq> ?i"
      by (rule sep)
    with bj hl [OF hj] sl [of j] bs [of "slot (acqs w ! j)"]
    show "busy (pages (sched ?w') ! slot (acqs ?w' ! j))"
      by simp
  qed
  have d: "\<forall>i j. holding ?w' i \<longrightarrow> holding ?w' j \<longrightarrow>
      slot (acqs ?w' ! i) = slot (acqs ?w' ! j) \<longrightarrow> i = j"
  proof (intro allI impI)
    fix i j
    assume "holding ?w' i" "holding ?w' j" "slot (acqs ?w' ! i) = slot (acqs ?w' ! j)"
    then have "holding w i" "holding w j" "slot (acqs w ! i) = slot (acqs w ! j)"
      using h hl sl by simp_all
    with inv show "i = j" by (simp add: pool_inv_def)
  qed
  from a b c d have "pool_inv pgs ?w'"
    unfolding pool_inv_def by blast
  with st show ?thesis by simp
qed

lemma step_inv:
  "pool_inv pgs w \<Longrightarrow> (\<And>k. ev = Release k \<Longrightarrow> \<not> stale_release w k) \<Longrightarrow> pool_inv pgs (step ev w)"
  by (cases ev)
    (simp_all add: inv_rotation_switch inv_tick inv_scan inv_front_done inv_front_failed inv_release
      inv_cleanup_finish)

lemma no_stale_step:
  "no_stale_release (ev # evs) w \<Longrightarrow>
     no_stale_release evs (step ev w) \<and> (\<forall>k. ev = Release k \<longrightarrow> \<not> stale_release w k)"
  by (cases ev) simp_all

lemma run_inv: "pool_inv pgs w \<Longrightarrow> no_stale_release evs w \<Longrightarrow> pool_inv pgs (run evs w)"
proof (induction evs arbitrary: w)
  case Nil
  then show ?case by simp
next
  case (Cons ev evs)
  from no_stale_step [OF Cons.prems(2)]
  have rest: "no_stale_release evs (step ev w)" and here: "\<And>k. ev = Release k \<Longrightarrow> \<not> stale_release w k"
    by simp_all
  from Cons.prems(1) here have "pool_inv pgs (step ev w)"
    by (rule step_inv)
  from Cons.IH [OF this rest] show ?case
    by simp
qed

lemma released_before:
  "k < length (acqs (step ev w)) \<Longrightarrow> status (acqs (step ev w) ! k) = Released \<Longrightarrow> ev \<noteq> Release k \<Longrightarrow>
     k < length (acqs w) \<and> status (acqs w ! k) = Released"
proof (cases ev)
  case AcquireScan
  assume "k < length (acqs (step ev w))" "status (acqs (step ev w) ! k) = Released"
  with AcquireScan show ?thesis
    by (auto simp: step_def nth_append split: prod.splits scan.splits if_splits)
next
  case (Tick now)
  assume "k < length (acqs (step ev w))" "status (acqs (step ev w) ! k) = Released"
  with Tick show ?thesis
    by (auto simp: step_def split: prod.splits if_splits)
next
  case (CleanupFinish c)
  assume "k < length (acqs (step ev w))" "status (acqs (step ev w) ! k) = Released"
  with CleanupFinish show ?thesis
    by (auto simp: step_def split: prod.splits if_splits)
next
  case (FrontDone i now)
  assume "k < length (acqs (step ev w))" "status (acqs (step ev w) ! k) = Released"
  with FrontDone show ?thesis
    by (auto simp: step_def nth_list_update split: prod.splits if_splits)
next
  case (FrontFailed i)
  assume "k < length (acqs (step ev w))" "status (acqs (step ev w) ! k) = Released"
  with FrontFailed show ?thesis
    by (auto simp: step_def nth_list_update split: if_splits)
next
  case (Release i)
  assume "k < length (acqs (step ev w))" "status (acqs (step ev w) ! k) = Released" "ev \<noteq> Release k"
  with Release show ?thesis
    by (auto simp: step_def nth_list_update split: if_splits)
qed (auto simp: step_def)

lemma releases_tail:
  "set (releases evs) \<subseteq> set (releases (ev # evs)) \<and>
   (distinct (releases (ev # evs)) \<longrightarrow> distinct (releases evs)) \<and>
   (distinct (releases (ev # evs)) \<longrightarrow> ev = Release k \<longrightarrow> k \<notin> set (releases evs)) \<and>
   (ev = Release k \<longrightarrow> k \<in> set (releases (ev # evs)))"
  by (cases ev) auto

lemma no_stale_cons:
  "(\<And>k. ev = Release k \<Longrightarrow> \<not> stale_release w k) \<Longrightarrow> no_stale_release evs (step ev w) \<Longrightarrow>
     no_stale_release (ev # evs) w"
  by (cases ev) simp_all

lemma once_no_stale:
  "distinct (releases evs) \<Longrightarrow>
   \<forall>k \<in> set (releases evs). k < length (acqs w) \<longrightarrow> status (acqs w ! k) \<noteq> Released \<Longrightarrow>
     no_stale_release evs w"
proof (induction evs arbitrary: w)
  case Nil
  then show ?case by simp
next
  case (Cons ev evs)
  have here: "\<not> stale_release w k" if "ev = Release k" for k
    using that Cons.prems(2) releases_tail [of evs ev k] by (auto simp: stale_release_def)
  have d': "distinct (releases evs)"
    using Cons.prems(1) releases_tail [of evs ev] by blast
  have fresh': "\<forall>k \<in> set (releases evs). k < length (acqs (step ev w)) \<longrightarrow>
      status (acqs (step ev w) ! k) \<noteq> Released"
  proof (intro ballI impI notI)
    fix k
    assume k: "k \<in> set (releases evs)" and len: "k < length (acqs (step ev w))"
      and rel: "status (acqs (step ev w) ! k) = Released"
    from k Cons.prems(1) releases_tail [of evs ev k] have "ev \<noteq> Release k"
      by blast
    with len rel have "k < length (acqs w) \<and> status (acqs w ! k) = Released"
      by (rule released_before)
    moreover from k releases_tail [of evs ev k] have "k \<in> set (releases (ev # evs))"
      by blast
    ultimately show False
      using Cons.prems(2) by blast
  qed
  from here Cons.IH [OF d' fresh'] show ?case
    by (rule no_stale_cons)
qed

lemma release_again:
  "step (Release k) (step (Release k) w) = step (Release k) w"
proof (cases "k < length (acqs w) \<and> (status (acqs w ! k) = Held \<or> status (acqs w ! k) = Released)")
  case False
  then have "step (Release k) w = w"
    by (auto simp: step_def)
  then show ?thesis by simp
next
  case True
  let ?ps = "pages (sched w)"
  let ?i = "slot (acqs w ! k)"
  let ?ps' = "if ?i < length ?ps then ?ps[?i := (?ps ! ?i)\<lparr>busy := False\<rparr>] else ?ps"
  let ?w' = "w\<lparr>sched := (sched w)\<lparr>pages := ?ps', activeTasks := activeTasks (sched w) - {k}\<rparr>,
               acqs := (acqs w)[k := (acqs w ! k)\<lparr>status := Released\<rparr>]\<rparr>"
  from True have st: "step (Release k) w = ?w'"
    by (simp add: step_def release_def)
  from True have "step (Release k) ?w' = ?w'"
    by (simp add: step_def release_def)
  with st show ?thesis by simp
qed

lemma inv_bounds:
  assumes inv: "pool_inv pgs w"
  shows "length (in_flight w) \<le> length pgs
     \<and> distinct (map (\<lambda>k. slot (acqs w ! k)) (in_flight w))
     \<and> (distinct pgs \<longrightarrow> distinct (map (\<lambda>k. handle (acqs w ! k)) (in_flight w)))"
proof -
  let ?sl = "\<lambda>k. slot (acqs w ! k)"
  have inj: "inj_on ?sl (set (in_flight w))"
    using inv by (auto simp: inj_on_def in_flight_set pool_inv_def)
  then have ds: "distinct (map ?sl (in_flight w))"
    by (simp add: distinct_map in_flight_set)
  have range: "set (map ?sl (in_flight w)) \<subseteq> {..<length pgs}"
    using inv by (auto simp: in_flight_set pool_inv_def holding_def)
  have "length (in_flight w) = card (set (map ?sl (in_flight w)))"
    using ds distinct_card [of "map ?sl (in_flight w)"] by simp
  also have "\<dots> \<le> card {..<length pgs}"
    using range by (intro card_mono) simp_all
  finally have bound: "length (in_flight w) \<le> length pgs"
    by simp
  have handles: "distinct (map (\<lambda>k. handle (acqs w ! k)) (in_flight w))" if dp: "distinct pgs"
  proof -
    have "inj_on (\<lambda>k. handle (acqs w ! k)) (set (in_flight w))"
    proof (rule inj_onI)
      fix a b
      assume a: "a \<in> set (in_flight w)" and b: "b \<in> set (in_flight w)"
        and eq: "handle (acqs w ! a) = handle (acqs w ! b)"
      from a b have ha: "holding w a" and hb: "holding w b"
        by (simp_all add: in_flight_set)
      with inv have "?sl a < length pgs" "?sl b < length pgs"
        "handle (acqs w ! a) = pgs ! ?sl a" "handle (acqs w ! b) = pgs ! ?sl b"
        by (simp_all add: pool_inv_def holding_def)
      with eq dp have "?sl a = ?sl b"
        by (simp add: nth_eq_iff_index_eq)
      with inv ha hb show "a = b"
        by (simp add: pool_inv_def)
    qed
    then show ?thesis
      by (simp add: distinct_map in_flight_set)
  qed
  from bound ds handles show ?thesis
    by blast
qed

lemma busy_cleared_by_release:
  assumes "j < length (pages (sched w))" "j < length (pages (sched (step ev w)))"
    and "busy (pages (sched w) ! j)" "\<not> busy (pages (sched (step ev w)) ! j)"
  shows "\<exists>k. ev = Release k \<and> k < length (acqs w) \<and> slot (acqs w ! k) = j"
proof (cases ev)
  case (Tick now)
  obtain s' cs where r: "rotateActivePage now (sched w) = (s', cs)"
    by (cases "rotateActivePage now (sched w)")
  with rotate_frame [of now "sched w"] have "map busy (pages s') = map busy (pages (sched w))"
    by simp
  with assms(1) have "busy (pages s' ! j) = busy (pages (sched w) ! j)"
    by (metis length_map nth_map)
  with assms Tick r show ?thesis
    by (auto simp: step_def split: if_splits)
next
  case AcquireScan
  obtain r s' cs where sc: "acquire_scan (sched w) = (r, s', cs)"
    by (cases "acquire_scan (sched w)")
  show ?thesis
  proof (cases r)
    case (AwaitFront i pg)
    with sc scan_grant [of "sched w" i pg s' cs]
    have "s' = (sched w)\<lparr>pages := (pages (sched w))[i := (pages (sched w) ! i)\<lparr>busy := True\<rparr>]\<rparr>"
      by simp
    with assms(1,3) have "busy (pages s' ! j)"
      by (cases "i = j") simp_all
    with assms AcquireScan sc AwaitFront show ?thesis
      by (simp add: step_def)
  next
    case ReturnNull
    with assms AcquireScan sc scan_no_grant [OF sc] show ?thesis
      by (simp add: step_def)
  next
    case Sleep
    with assms AcquireScan sc scan_no_grant [OF sc] show ?thesis
      by (simp add: step_def)
  qed
next
  case (FrontDone k now)
  with assms show ?thesis
    by (auto simp: step_def acquire_resume_def busy_stamp_nth split: if_splits)
next
  case (Release k)
  with assms show ?thesis
    by (cases "slot (acqs w ! k) = j") (auto simp: step_def release_def split: if_splits)
next
  case (CleanupFinish c)
  with assms show ?thesis
    by (auto simp: step_def cleanup_finish_def split: if_splits)
next
  case StartRotation
  with assms show ?thesis by (auto simp: step_def startRotation_def split: if_splits)
next
  case StopRotation
  with assms show ?thesis by (auto simp: step_def stopRotation_def split: if_splits)
next
  case (FrontFailed k)
  with assms show ?thesis by (auto simp: step_def split: if_splits)
next
  case CleanupBegin
  with assms show ?thesis by (auto simp: step_def cleanup_begin_def stopRotation_def split: if_splits)
qed


text \<open>
  C1, as stated, fails. The release callback has no guard against a second call. On a
  pool of one page: the first acquisition is granted the slot and releases it; a second
  one is granted the slot; the callback of the first is called again and clears the busy
  flag under the second; a third acquisition is granted the same slot. Two acquisitions
  are then in flight on the one page of the pool.
\<close>

theorem repeated_release_breaks_exclusion:
  "in_flight (run [AcquireScan, FrontDone 0 1, Release 0, AcquireScan, FrontDone 1 2, Release 0,
                   AcquireScan] (init [7] 500)) = [1, 2]
   \<and> handle (acqs (run [AcquireScan, FrontDone 0 1, Release 0, AcquireScan, FrontDone 1 2, Release 0,
                         AcquireScan] (init [7] 500)) ! 1) = 7
   \<and> handle (acqs (run [AcquireScan, FrontDone 0 1, Release 0, AcquireScan, FrontDone 1 2, Release 0,
                         AcquireScan] (init [7] 500)) ! 2) = 7
   \<and> \<not> length (in_flight (run [AcquireScan, FrontDone 0 1, Release 0, AcquireScan, FrontDone 1 2,
                                  Release 0, AcquireScan] (init [7] 500))) \<le> length [7 :: nat]"
  by (simp add: step_def init_def constructor_def acquire_scan_def acquire_resume_def release_def
      Let_def in_flight_def upt_rec)

text \<open>
  C1, amended. In every run of a pool built over the pages \<open>pgs\<close> in which no release
  callback that has been called before is called again while an acquisition in flight
  sits on its slot (so in every run in which no callback is called twice), the
  acquisitions in flight (a slot has been marked for them and their release callback has
  not been called) are at most as many as the pages and sit on different slots, hence, the
  handles of the pool being different, on different pages. Calling a release callback
  twice in a row is the same as calling it once. By its code alone, on any state:
  \<^verbatim>\<open>acquirePage\<close> grants only a slot whose busy flag is false and has set it to true when
  it awaits the foreground call, before it returns; and a piece of a run that leaves a
  slot with its busy flag turned from true to false is the release callback of an
  acquisition of that slot.
\<close>

theorem pool_mutual_exclusion:
  "(no_stale_release evs (init pgs ms) \<longrightarrow>
      length (in_flight (run evs (init pgs ms))) \<le> length pgs
      \<and> distinct (map (\<lambda>k. slot (acqs (run evs (init pgs ms)) ! k)) (in_flight (run evs (init pgs ms))))
      \<and> (distinct pgs \<longrightarrow>
            distinct (map (\<lambda>k. handle (acqs (run evs (init pgs ms)) ! k))
                        (in_flight (run evs (init pgs ms))))))
   \<and> (distinct (releases evs) \<longrightarrow> no_stale_release evs (init pgs ms))
   \<and> step (Release r) (step (Release r) w) = step (Release r) w
   \<and> (acquire_scan s = (AwaitFront i pg, s', cs) \<longrightarrow>
        i < length (pages s) \<and> \<not> busy (pages s ! i) \<and> busy (pages s' ! i) \<and> pg = page (pages s ! i))
   \<and> (j < length (pages (sched w)) \<and> j < length (pages (sched (step ev w)))
        \<and> busy (pages (sched w) ! j) \<and> \<not> busy (pages (sched (step ev w)) ! j) \<longrightarrow>
        (\<exists>k. ev = Release k \<and> k < length (acqs w) \<and> slot (acqs w ! k) = j))"
proof (intro conjI impI)
  assume d: "no_stale_release evs (init pgs ms)"
  have "pool_inv pgs (run evs (init pgs ms))"
    using init_inv d by (rule run_inv)
  then have b: "length (in_flight (run evs (init pgs ms))) \<le> length pgs
     \<and> distinct (map (\<lambda>k. slot (acqs (run evs (init pgs ms)) ! k)) (in_flight (run evs (init pgs ms))))
     \<and> (distinct pgs \<longrightarrow> distinct (map (\<lambda>k. handle (acqs (run evs (init pgs ms)) ! k))
                        (in_flight (run evs (init pgs ms)))))"
    by (rule inv_bounds)
  from b show "length (in_flight (run evs (init pgs ms))) \<le> length pgs"
    by simp
  from b show "distinct (map (\<lambda>k. slot (acqs (run evs (init pgs ms)) ! k))
      (in_flight (run evs (init pgs ms))))"
    by simp
  assume "distinct pgs"
  with b show "distinct (map (\<lambda>k. handle (acqs (run evs (init pgs ms)) ! k))
      (in_flight (run evs (init pgs ms))))"
    by simp
next
  assume "distinct (releases evs)"
  then show "no_stale_release evs (init pgs ms)"
    by (rule once_no_stale) (simp add: init_def)
next
  show "step (Release r) (step (Release r) w) = step (Release r) w"
    by (rule release_again)
next
  assume g: "acquire_scan s = (AwaitFront i pg, s', cs)"
  from scan_grant [OF g] show "i < length (pages s)" "\<not> busy (pages s ! i)"
    "pg = page (pages s ! i)" "busy (pages s' ! i)"
    by simp_all
next
  assume "j < length (pages (sched w)) \<and> j < length (pages (sched (step ev w)))
        \<and> busy (pages (sched w) ! j) \<and> \<not> busy (pages (sched (step ev w)) ! j)"
  then show "\<exists>k. ev = Release k \<and> k < length (acqs w) \<and> slot (acqs w ! k) = j"
    using busy_cleared_by_release [of j w ev] by blast
qed

lemma held_world:
  "run [AcquireScan, FrontDone 0 3] (init [7, 8] 500) =
     \<lparr>sched = \<lparr>pages = [\<lparr>page = 7, busy = True, lastActivated = 3\<rparr>,
                        \<lparr>page = 8, busy = False, lastActivated = 0\<rparr>],
               activationIntervalMs = 500, rotationTimerId = False, currentActiveIndex = Some 0,
               activeTasks = {0}, shuttingDown = False, cleanupStarted = False\<rparr>,
      acqs = [\<lparr>slot = 0, handle = 7, status = Held\<rparr>], calls = [BringToFront 7]\<rparr>"
  by (simp add: step_def init_def constructor_def acquire_scan_def acquire_resume_def Let_def)

lemma released_world:
  "step (Release 0) (run [AcquireScan, FrontDone 0 3] (init [7, 8] 500)) =
     \<lparr>sched = \<lparr>pages = [\<lparr>page = 7, busy = False, lastActivated = 3\<rparr>,
                        \<lparr>page = 8, busy = False, lastActivated = 0\<rparr>],
               activationIntervalMs = 500, rotationTimerId = False, currentActiveIndex = Some 0,
               activeTasks = {}, shuttingDown = False, cleanupStarted = False\<rparr>,
      acqs = [\<lparr>slot = 0, handle = 7, status = Released\<rparr>], calls = [BringToFront 7]\<rparr>"
  unfolding held_world by (simp add: step_def release_def)

lemma sample_pool_run:
  "run [AcquireScan, FrontDone 0 3, Release 0, Release 0, AcquireScan, AcquireScan] (init [7, 8] 500) =
     \<lparr>sched = \<lparr>pages = [\<lparr>page = 7, busy = True, lastActivated = 3\<rparr>,
                        \<lparr>page = 8, busy = True, lastActivated = 0\<rparr>],
               activationIntervalMs = 500, rotationTimerId = False, currentActiveIndex = Some 0,
               activeTasks = {}, shuttingDown = False, cleanupStarted = False\<rparr>,
      acqs = [\<lparr>slot = 0, handle = 7, status = Released\<rparr>,
              \<lparr>slot = 0, handle = 7, status = AwaitingFront\<rparr>,
              \<lparr>slot = 1, handle = 8, status = AwaitingFront\<rparr>],
      calls = [BringToFront 7, BringToFront 7, BringToFront 8]\<rparr>"
  by (simp add: step_def init_def constructor_def acquire_scan_def acquire_resume_def release_def Let_def)

lemma sample_pool_no_stale:
  "no_stale_release [AcquireScan, FrontDone 0 3, Release 0, Release 0, AcquireScan, AcquireScan]
     (init [7, 8] 500)"
proof -
  let ?w = "run [AcquireScan, FrontDone 0 3] (init [7, 8] 500)"
  have a: "\<not> stale_release ?w 0"
    unfolding held_world by (simp add: stale_release_def)
  have b: "\<not> stale_release (step (Release 0) ?w) 0"
    unfolding released_world by (simp add: stale_release_def in_flight_def)
  have "no_stale_release [Release 0, Release 0, AcquireScan, AcquireScan] ?w"
    using a b by (simp del: run.simps)
  then show ?thesis
    by simp
qed

theorem pool_mutual_exclusion_witness:
  "no_stale_release [AcquireScan, FrontDone 0 3, Release 0, Release 0, AcquireScan, AcquireScan]
     (init [7, 8] 500)
   \<and> in_flight (run [AcquireScan, FrontDone 0 3, Release 0, Release 0, AcquireScan, AcquireScan]
        (init [7, 8] 500)) = [1, 2]
   \<and> length (in_flight (run [AcquireScan, FrontDone 0 3, Release 0, Release 0, AcquireScan, AcquireScan]
        (init [7, 8] 500))) \<le> length [7 :: nat, 8]
   \<and> no_stale_release [AcquireScan, FrontDone 0 3, Release 0, AcquireScan] (init [7, 8] 500)
   \<and> acquire_scan (constructor [7, 8] 500) =
       (AwaitFront 0 7,
        (constructor [7, 8] 500)\<lparr>pages := [\<lparr>page = 7, busy = True, lastActivated = 0\<rparr>,
                                              \<lparr>page = 8, busy = False, lastActivated = 0\<rparr>]\<rparr>,
        [BringToFront 7])
   \<and> \<not> busy (pages (constructor [7, 8] 500) ! 0)
   \<and> busy (pages (sched (run [AcquireScan, FrontDone 0 3] (init [7, 8] 500))) ! 0)
   \<and> \<not> busy (pages (sched (step (Release 0) (run [AcquireScan, FrontDone 0 3] (init [7, 8] 500)))) ! 0)"
proof -
  let ?evs = "[AcquireScan, FrontDone 0 3, Release 0, Release 0, AcquireScan, AcquireScan]"
  let ?once = "[AcquireScan, FrontDone 0 3, Release 0, AcquireScan]"
  let ?w = "run [AcquireScan, FrontDone 0 3] (init [7, 8] 500)"
  note d = sample_pool_no_stale
  have f: "in_flight (run ?evs (init [7, 8] 500)) = [1, 2]"
    unfolding sample_pool_run in_flight_def by simp
  have sc: "acquire_scan (constructor [7, 8] 500) =
       (AwaitFront 0 7,
        (constructor [7, 8] 500)\<lparr>pages := [\<lparr>page = 7, busy = True, lastActivated = 0\<rparr>,
                                              \<lparr>page = 8, busy = False, lastActivated = 0\<rparr>]\<rparr>,
        [BringToFront 7])"
    by (simp add: two_pages acquire_scan_def Let_def)
  have free: "\<not> busy (pages (constructor [7, 8] 500) ! 0)"
    by (simp add: two_pages)
  have r: "\<not> busy (pages (sched (step (Release 0) ?w)) ! 0) \<and> 0 < length (pages (sched (step (Release 0) ?w)))"
    unfolding released_world by simp
  have b: "busy (pages (sched ?w) ! 0) \<and> 0 < length (pages (sched ?w))"
    unfolding held_world by simp
  have len: "length (in_flight (run ?evs (init [7, 8] 500))) \<le> length [7 :: nat, 8]"
    using d pool_mutual_exclusion [where evs = ?evs and pgs = "[7, 8]" and ms = 500]
    by blast
  have once: "distinct (releases ?once)"
    by simp
  have once': "no_stale_release ?once (init [7, 8] 500)"
    using once pool_mutual_exclusion [where evs = ?once and pgs = "[7, 8]" and ms = 500]
    by blast
  have cleared: "\<exists>k. Release 0 = Release k \<and> k < length (acqs ?w) \<and> slot (acqs ?w ! k) = 0"
    using r b pool_mutual_exclusion [where j = 0 and w = ?w and ev = "Release 0"]
    by blast
  from d f len once' cleared sc free b r show ?thesis
    by (simp del: run.simps no_stale_release.simps)
qed

end
